theory Spec2Isabelle
  imports Complex_Main
begin

section \<open>SwiftAttend: event registration and attendance check-in\<close>

text \<open>
  A shallow embedding of the domain operations of SwiftAttend: the local-storage data layer
  (\<^verbatim>\<open>lib/storage\<close>), the local sign-in (\<^verbatim>\<open>lib/auth\<close>), the scanner page's
  \<^verbatim>\<open>handleScan\<close>, the participant listing filter of the index page, and the pieces of
  the hosted-backend variant (\<^verbatim>\<open>lib/supabase\<close>, \<^verbatim>\<open>QRScanner\<close>) that are plain
  code rather than database queries.

  Conventions. JavaScript strings are modelled as \<^typ>\<open>string\<close>, one character for each
  code unit up to U+00FF; text with other code units is outside the model. The case mapping of
  text that is not ASCII and the rounding of double arithmetic are modelled as the host
  language defines them: the first as a parameter, the second by its definition.
  The browser's local storage is a record with one field per key that the program uses; a
  missing key and an empty array are the same value, as \<^verbatim>\<open>getEvents\<close> and its siblings
  read them. Everything the program takes from the clock or the random number generator is
  a field of an environment record, one field per call site. A thrown \<^verbatim>\<open>Error\<close> is
  the left injection of a sum, and every operation returns the store it leaves behind.
\<close>

subsection \<open>String primitives of the host language\<close>

definition lowerChars :: string where
  "lowerChars = ''abcdefghijklmnopqrstuvwxyz''"

definition upperChars :: string where
  "upperChars = ''ABCDEFGHIJKLMNOPQRSTUVWXYZ''"

definition digitChars :: string where
  "digitChars = ''0123456789''"

text \<open>\<^verbatim>\<open>String.prototype.toUpperCase\<close>. On ASCII text the 26 lower-case letters are
  mapped and every other character is kept. On text with a character above U+007F the host
  language applies the case mapping of Unicode, which can change the length of the text; it is
  not defined here but is the parameter \<open>up\<close> of the function, and of every function that
  calls it. Every theorem below holds for every value of this parameter.\<close>

type_synonym CaseMapping = "string \<Rightarrow> string"

text \<open>A text is ASCII when no character has its eighth bit set.\<close>

definition is_ascii :: "string \<Rightarrow> bool" where
  "is_ascii s = list_all (\<lambda>c. \<not> digit7 c) s"

text \<open>The upper-case form of an ASCII character; \<open>toUpperCase\<close> applies it to ASCII text
  only.\<close>

definition toUpperChar :: "char \<Rightarrow> char" where
  "toUpperChar c = (case map_of (zip lowerChars upperChars) c of Some u \<Rightarrow> u | None \<Rightarrow> c)"

definition toUpperCase :: "CaseMapping \<Rightarrow> string \<Rightarrow> string" where
  "toUpperCase up s = (if is_ascii s then map toUpperChar s else up s)"

text \<open>\<^verbatim>\<open>String.prototype.trim\<close>: white space is removed at both ends. The white-space
  characters below 256 are tab, line feed, vertical tab, form feed, carriage return, space and
  the no-break space.\<close>

definition isWhiteSpace :: "char \<Rightarrow> bool" where
  "isWhiteSpace c = (c \<in> set [CHR 0x09, CHR 0x0A, CHR 0x0B, CHR 0x0C, CHR 0x0D, CHR '' '', CHR 0xA0])"

definition trim :: "string \<Rightarrow> string" where
  "trim s = rev (dropWhile isWhiteSpace (rev (dropWhile isWhiteSpace s)))"

text \<open>\<^verbatim>\<open>s.charAt(i)\<close> is the one-character string at index \<open>i\<close>, and the empty string
  when \<open>i\<close> is out of range.\<close>

definition charAt :: "string \<Rightarrow> nat \<Rightarrow> string" where
  "charAt s i = (if i < length s then [s ! i] else [])"

text \<open>\<^verbatim>\<open>s.substr(start, len)\<close> for a non-negative \<open>start\<close>.\<close>

definition substr :: "string \<Rightarrow> nat \<Rightarrow> nat \<Rightarrow> string" where
  "substr s start len = take len (drop start s)"

definition endsWith :: "string \<Rightarrow> string \<Rightarrow> bool" where
  "endsWith s t = (length t \<le> length s \<and> drop (length s - length t) s = t)"

definition includes_char :: "string \<Rightarrow> char \<Rightarrow> bool" where
  "includes_char s c = (c \<in> set s)"

text \<open>\<^verbatim>\<open>email.split('@')[0]\<close>: the part before the first at-sign.\<close>

definition split_first :: "char \<Rightarrow> string \<Rightarrow> string" where
  "split_first c s = takeWhile (\<lambda>x. x \<noteq> c) s"

text \<open>\<^verbatim>\<open>Array.prototype.find\<close>: the first element that satisfies the predicate.\<close>

definition find_first :: "('a \<Rightarrow> bool) \<Rightarrow> 'a list \<Rightarrow> 'a option" where
  "find_first P xs = List.find P xs"

subsection \<open>Data model\<close>

datatype Role = Admin | Staff | Participant

datatype CheckInMethod = qr_scan | backup_code

record User =
  usr_id :: string
  usr_email :: string
  usr_full_name :: string
  usr_role :: Role
  usr_student_id :: "string option"
  usr_created_at :: string

record Event =
  ev_id :: string
  ev_name :: string
  ev_description :: "string option"
  ev_event_date :: string
  ev_start_time :: string
  ev_end_time :: string
  ev_location :: string
  ev_max_capacity :: "nat option"
  ev_poster_url :: "string option"
  ev_created_by :: string
  ev_created_at :: string

record Registration =
  reg_id :: string
  reg_event_id :: string
  reg_user_id :: string
  reg_user_name :: string
  reg_user_email :: string
  reg_qr_code_data :: string
  reg_backup_code :: string
  reg_created_at :: string

record Attendance =
  att_id :: string
  att_registration_id :: string
  att_event_id :: string
  att_user_id :: string
  att_checked_in_at :: string
  att_check_in_method :: CheckInMethod
  att_staff_id :: string

text \<open>The keys of local storage that the operations below read and write. The key of the
  support messages is left out: no operation below touches it.\<close>

record Store =
  swiftattend_user :: "User option"
  swiftattend_events :: "Event list"
  swiftattend_registrations :: "Registration list"
  swiftattend_attendances :: "Attendance list"

definition empty_store :: Store where
  "empty_store = \<lparr> swiftattend_user = None, swiftattend_events = [],
     swiftattend_registrations = [], swiftattend_attendances = [] \<rparr>"

text \<open>What one call takes from the clock and the random number generator:
  \<^item> \<open>id_now\<close>: the decimal rendering of \<^verbatim>\<open>Date.now()\<close> inside the id generator;
  \<^item> \<open>id_random36\<close>: \<^verbatim>\<open>Math.random().toString(36)\<close> inside the id generator;
  \<^item> \<open>qr_now\<close>: the decimal rendering of \<^verbatim>\<open>Date.now()\<close> inside the QR payload;
  \<^item> \<open>randoms i\<close>: the \<open>i\<close>-th result of \<^verbatim>\<open>Math.random()\<close> in the backup-code loop;
  \<^item> \<open>iso_now\<close>: \<^verbatim>\<open>new Date().toISOString()\<close>.\<close>

record Env =
  id_now :: string
  id_random36 :: string
  qr_now :: string
  randoms :: "nat \<Rightarrow> real"
  iso_now :: string

datatype error = AlreadyRegistered | RegistrationNotFound | AlreadyCheckedIn

fun message :: "error \<Rightarrow> string" where
  "message AlreadyRegistered = ''Already registered for this event''"
| "message RegistrationNotFound = ''Registration not found''"
| "message AlreadyCheckedIn = ''Already checked in''"

subsection \<open>Local sign-in\<close>

definition ADMIN_PASSWORD :: string where
  "ADMIN_PASSWORD = ''14567''"

definition STAFF_PASSWORD :: string where
  "STAFF_PASSWORD = ''14567''"

record EmailValidation =
  valid :: bool
  error_text :: "string option"

definition validateEmail :: "string \<Rightarrow> EmailValidation" where
  "validateEmail email =
     (if email = [] then \<lparr> valid = False, error_text = Some ''Email is required'' \<rparr>
      else if \<not> includes_char email (CHR ''@'') then
        \<lparr> valid = False, error_text = Some ''Please enter a valid email address'' \<rparr>
      else if \<not> endsWith email ''@nmamit.in'' then
        \<lparr> valid = False, error_text = Some ''Email must end with @nmamit.in'' \<rparr>
      else \<lparr> valid = True, error_text = None \<rparr>)"

text \<open>An optional argument is truthy when it is present and not the empty string.\<close>

fun truthy :: "string option \<Rightarrow> bool" where
  "truthy None = False"
| "truthy (Some s) = (s \<noteq> [])"

record SignInResult =
  success :: bool
  error :: "string option"
  user :: "User option"

definition signIn ::
  "Store \<Rightarrow> Env \<Rightarrow> string \<Rightarrow> string \<Rightarrow> Role \<Rightarrow> string option \<Rightarrow> string option
     \<Rightarrow> SignInResult \<times> Store" where
  "signIn st env email password role fullName studentId =
     (let emailValidation = validateEmail email in
      if \<not> valid emailValidation then
        (\<lparr> success = False, error = error_text emailValidation, user = None \<rparr>, st)
      else if role = Admin \<and> password \<noteq> ADMIN_PASSWORD then
        (\<lparr> success = False,
           error = Some ''Invalid admin password. Contact administrator for access.'',
           user = None \<rparr>, st)
      else if role = Staff \<and> password \<noteq> STAFF_PASSWORD then
        (\<lparr> success = False,
           error = Some ''Invalid staff password. Contact administrator for access.'',
           user = None \<rparr>, st)
      else if role = Participant \<and> \<not> truthy fullName then
        (\<lparr> success = False, error = Some ''Full name is required for participants.'',
           user = None \<rparr>, st)
      else
        (let u = \<lparr> usr_id = ''user_'' @ id_now env @ ''_'' @ substr (id_random36 env) 2 9,
                   usr_email = email,
                   usr_full_name = (if truthy fullName then the fullName
                                    else split_first (CHR ''@'') email),
                   usr_role = role,
                   usr_student_id = studentId,
                   usr_created_at = iso_now env \<rparr>
         in (\<lparr> success = True, error = None, user = Some u \<rparr>,
             st\<lparr> swiftattend_user := Some u \<rparr>)))"

subsection \<open>Local-storage data layer\<close>

definition generateId :: "Env \<Rightarrow> string" where
  "generateId env = id_now env @ ''_'' @ substr (id_random36 env) 2 9"

definition backupChars :: string where
  "backupChars = ''ABCDEFGHIJKLMNOPQRSTUVWXYZ0123456789''"

text \<open>The loop of \<^verbatim>\<open>generateBackupCode\<close>: \<open>i\<close> counts up to 8 and each round appends
  the character at index \<^verbatim>\<open>Math.floor(Math.random() * chars.length)\<close>.\<close>

function generateBackupCode_loop :: "(nat \<Rightarrow> real) \<Rightarrow> nat \<Rightarrow> string \<Rightarrow> string" where
  "generateBackupCode_loop rnd i result =
     (if i < 8 then
        generateBackupCode_loop rnd (i + 1)
          (result @ charAt backupChars (nat \<lfloor>rnd i * real (length backupChars)\<rfloor>))
      else result)"
  by pat_completeness auto
termination
  by (relation "measure (\<lambda>(rnd, i, result). 8 - i)") auto

definition generateBackupCode :: "Env \<Rightarrow> string" where
  "generateBackupCode env = generateBackupCode_loop (randoms env) 0 []"

definition generateQRCodeData :: "Env \<Rightarrow> string \<Rightarrow> string \<Rightarrow> string \<Rightarrow> string" where
  "generateQRCodeData env eventId userId registrationId =
     ''SWIFTATTEND_'' @ eventId @ ''_'' @ userId @ ''_'' @ registrationId @ ''_'' @ qr_now env"

definition getEvents :: "Store \<Rightarrow> Event list" where
  "getEvents st = swiftattend_events st"

definition getRegistrations :: "Store \<Rightarrow> Registration list" where
  "getRegistrations st = swiftattend_registrations st"

definition getAttendances :: "Store \<Rightarrow> Attendance list" where
  "getAttendances st = swiftattend_attendances st"

text \<open>\<^verbatim>\<open>createEvent\<close> takes the event without its id and creation time; the model takes a
  whole record and overwrites the two fields.\<close>

definition createEvent :: "Store \<Rightarrow> Env \<Rightarrow> Event \<Rightarrow> Event \<times> Store" where
  "createEvent st env eventData =
     (let event = eventData\<lparr> ev_id := generateId env, ev_created_at := iso_now env \<rparr>;
          events = getEvents st
      in (event, st\<lparr> swiftattend_events := events @ [event] \<rparr>))"

definition getEventById :: "Store \<Rightarrow> string \<Rightarrow> Event option" where
  "getEventById st eventId = find_first (\<lambda>event. ev_id event = eventId) (getEvents st)"

definition registerForEvent ::
  "Store \<Rightarrow> Env \<Rightarrow> string \<Rightarrow> string \<Rightarrow> string \<Rightarrow> string
     \<Rightarrow> (error + Registration) \<times> Store" where
  "registerForEvent st env eventId userId userName userEmail =
     (let registrationId = generateId env;
          registration = \<lparr> reg_id = registrationId,
                           reg_event_id = eventId,
                           reg_user_id = userId,
                           reg_user_name = userName,
                           reg_user_email = userEmail,
                           reg_qr_code_data = generateQRCodeData env eventId userId registrationId,
                           reg_backup_code = generateBackupCode env,
                           reg_created_at = iso_now env \<rparr>;
          registrations = getRegistrations st;
          existingRegistration =
            find_first (\<lambda>reg. reg_event_id reg = eventId \<and> reg_user_id reg = userId) registrations
      in case existingRegistration of
           Some _ \<Rightarrow> (Inl AlreadyRegistered, st)
         | None \<Rightarrow> (Inr registration,
                     st\<lparr> swiftattend_registrations := registrations @ [registration] \<rparr>))"

definition getEventRegistrations :: "Store \<Rightarrow> string \<Rightarrow> Registration list" where
  "getEventRegistrations st eventId =
     filter (\<lambda>reg. reg_event_id reg = eventId) (getRegistrations st)"

definition checkRegistrationStatus :: "Store \<Rightarrow> string \<Rightarrow> string \<Rightarrow> Registration option" where
  "checkRegistrationStatus st eventId userId =
     find_first (\<lambda>reg. reg_event_id reg = eventId \<and> reg_user_id reg = userId) (getRegistrations st)"

definition deleteRegistration :: "Store \<Rightarrow> string \<Rightarrow> bool \<times> Store" where
  "deleteRegistration st registrationId =
     (let registrations = getRegistrations st;
          filteredRegistrations = filter (\<lambda>reg. reg_id reg \<noteq> registrationId) registrations
      in if length filteredRegistrations = length registrations then (False, st)
         else
           (let st1 = st\<lparr> swiftattend_registrations := filteredRegistrations \<rparr>;
                attendances = getAttendances st1;
                filteredAttendances =
                  filter (\<lambda>att. att_registration_id att \<noteq> registrationId) attendances
            in (True, st1\<lparr> swiftattend_attendances := filteredAttendances \<rparr>)))"

definition findRegistrationByQR :: "Store \<Rightarrow> string \<Rightarrow> Registration option" where
  "findRegistrationByQR st qrData =
     find_first (\<lambda>reg. reg_qr_code_data reg = qrData) (getRegistrations st)"

definition findRegistrationByBackupCode ::
  "CaseMapping \<Rightarrow> Store \<Rightarrow> string \<Rightarrow> Registration option" where
  "findRegistrationByBackupCode up st backupCode =
     find_first (\<lambda>reg. reg_backup_code reg = toUpperCase up backupCode) (getRegistrations st)"

definition isAttendeeCheckedIn :: "Store \<Rightarrow> string \<Rightarrow> bool" where
  "isAttendeeCheckedIn st registrationId =
     list_ex (\<lambda>att. att_registration_id att = registrationId) (getAttendances st)"

definition checkInAttendee ::
  "Store \<Rightarrow> Env \<Rightarrow> string \<Rightarrow> CheckInMethod \<Rightarrow> string \<Rightarrow> (error + Attendance) \<times> Store" where
  "checkInAttendee st env registrationId method staffId =
     (case find_first (\<lambda>reg. reg_id reg = registrationId) (getRegistrations st) of
        None \<Rightarrow> (Inl RegistrationNotFound, st)
      | Some registration \<Rightarrow>
          if isAttendeeCheckedIn st registrationId then (Inl AlreadyCheckedIn, st)
          else
            (let attendance = \<lparr> att_id = generateId env,
                                 att_registration_id = registrationId,
                                 att_event_id = reg_event_id registration,
                                 att_user_id = reg_user_id registration,
                                 att_checked_in_at = iso_now env,
                                 att_check_in_method = method,
                                 att_staff_id = staffId \<rparr>;
                 attendances = getAttendances st
             in (Inr attendance, st\<lparr> swiftattend_attendances := attendances @ [attendance] \<rparr>)))"

definition getEventAttendances :: "Store \<Rightarrow> string \<Rightarrow> Attendance list" where
  "getEventAttendances st eventId =
     filter (\<lambda>att. att_event_id att = eventId) (getAttendances st)"

definition clearAllData :: "Store \<Rightarrow> Store" where
  "clearAllData st = st\<lparr> swiftattend_events := [], swiftattend_registrations := [],
     swiftattend_attendances := [] \<rparr>"

text \<open>\<^verbatim>\<open>signOut\<close> removes the user key.\<close>

definition signOut :: "Store \<Rightarrow> Store" where
  "signOut st = st\<lparr> swiftattend_user := None \<rparr>"

subsection \<open>Event statistics\<close>

text \<open>Numbers of the host language are IEEE 754 doubles. \<open>round_double\<close> is the rounding
  of a real number to the nearest double, ties to the even mantissa: the number is scaled by
  powers of two until its mantissa lies between \<open>2^52\<close> and \<open>2^53\<close>, the mantissa is rounded
  to an integer, and the scaling is undone. The counts below are array lengths, which are less
  than \<open>2^32\<close>, so they are doubles themselves and every quotient and product of the
  statistics lies in the range of normal doubles; overflow and subnormal numbers are not
  modelled.\<close>

definition round_half_even :: "real \<Rightarrow> int" where
  "round_half_even m =
     (let f = \<lfloor>m\<rfloor>; d = m - of_int f
      in if d < 1 / 2 then f else if d > 1 / 2 then f + 1 else if even f then f else f + 1)"

function scale_mantissa :: "nat \<Rightarrow> real \<Rightarrow> real \<Rightarrow> real \<times> real" where
  "scale_mantissa fuel m u =
     (if fuel = 0 then (m, u)
      else if m < 4503599627370496 then scale_mantissa (fuel - 1) (m * 2) (u / 2)
      else if m \<ge> 9007199254740992 then scale_mantissa (fuel - 1) (m / 2) (u * 2)
      else (m, u))"
  by pat_completeness auto
termination
  by (relation "measure (\<lambda>(fuel, m, u). fuel)") auto

definition round_double :: "real \<Rightarrow> real" where
  "round_double x =
     (if x = 0 then 0
      else if x < 0 then
        (case scale_mantissa 2200 (- x) 1 of (m, u) \<Rightarrow> - (of_int (round_half_even m) * u))
      else
        (case scale_mantissa 2200 x 1 of (m, u) \<Rightarrow> of_int (round_half_even m) * u))"

text \<open>The result of a division of two counts, as the host language computes it: the
  rounded quotient, or \<open>NaN\<close> for \<open>0 / 0\<close>, or \<open>Infinity\<close> for a positive count over
  zero; and the product of such a result with a double.\<close>

datatype number = Finite real | NaN | Infinity

definition divide_number :: "nat \<Rightarrow> nat \<Rightarrow> number" where
  "divide_number a b =
     (if b = 0 then (if a = 0 then NaN else Infinity)
      else Finite (round_double (real a / real b)))"

fun times_number :: "number \<Rightarrow> real \<Rightarrow> number" where
  "times_number (Finite x) k = Finite (round_double (x * k))"
| "times_number NaN k = NaN"
| "times_number Infinity k = (if k = 0 then NaN else Infinity)"

record EventStats =
  totalRegistrations :: nat
  totalAttendances :: nat
  attendanceRate :: number

definition getEventStats :: "Store \<Rightarrow> string \<Rightarrow> EventStats" where
  "getEventStats st eventId =
     (let registrations = getEventRegistrations st eventId;
          attendances = getEventAttendances st eventId
      in \<lparr> totalRegistrations = length registrations,
           totalAttendances = length attendances,
           attendanceRate =
             (if length registrations > 0
              then times_number (divide_number (length attendances) (length registrations)) 100
              else Finite 0) \<rparr>)"

subsection \<open>The scanner page\<close>

datatype Message = Failure string | Succeeded string

text \<open>The check mark that opens the success text (U+2705), written as its three UTF-8
  bytes; no property below depends on it.\<close>

definition check_mark :: string where
  "check_mark = [CHR 0xE2, CHR 0x9C, CHR 0x85]"

text \<open>The lookup at the start of \<^verbatim>\<open>handleScan\<close>, applied to the trimmed text: by QR payload
  first, and by backup code, with the text in upper case, if that finds nothing.\<close>

definition lookupRegistration :: "CaseMapping \<Rightarrow> Store \<Rightarrow> string \<Rightarrow> Registration option" where
  "lookupRegistration up st code =
     (case findRegistrationByQR st code of
        Some r \<Rightarrow> Some r
      | None \<Rightarrow> findRegistrationByBackupCode up st (toUpperCase up code))"

text \<open>\<^verbatim>\<open>handleScan\<close> reads the selected event and the typed text from the page's state;
  here they are arguments. The result is the message that the page shows and the store.\<close>

definition handleScan ::
  "CaseMapping \<Rightarrow> Store \<Rightarrow> Env \<Rightarrow> User \<Rightarrow> string \<Rightarrow> string \<Rightarrow> Message \<times> Store" where
  "handleScan up st env usr selectedEventId scanInput =
     (if selectedEventId = [] \<or> trim scanInput = [] then
        (Failure ''Please select an event and enter QR code or backup code'', st)
      else
        (case lookupRegistration up st (trim scanInput) of
           None \<Rightarrow> (Failure ''Invalid QR code or backup code'', st)
         | Some registration \<Rightarrow>
             if reg_event_id registration \<noteq> selectedEventId then
               (Failure ''This registration is not for the selected event'', st)
             else if isAttendeeCheckedIn st (reg_id registration) then
               (Failure (reg_user_name registration @ '' is already checked in''), st)
             else
               (let method = (if length scanInput > 10 then qr_scan else backup_code)
                in case checkInAttendee st env (reg_id registration) method (usr_id usr) of
                     (Inl e, st') \<Rightarrow> (Failure ''Failed to check in attendee'', st')
                   | (Inr a, st') \<Rightarrow>
                       (Succeeded (check_mark @ '' '' @ reg_user_name registration
                          @ '' checked in successfully!''), st'))))"

subsection \<open>The participant listing\<close>

text \<open>Dates of the host language are milliseconds since the epoch, in UTC. A clock is the
  current instant and the offset of the browser's time zone, in minutes east of UTC, which is
  taken to be the same at the current instant and at the preceding local midnight.\<close>

record Clock =
  now_ms :: int
  tz_offset_min :: int

definition MS_PER_DAY :: int where
  "MS_PER_DAY = 86400000"

definition MS_PER_MINUTE :: int where
  "MS_PER_MINUTE = 60000"

definition digit_val :: "char \<Rightarrow> int option" where
  "digit_val c = map_of (zip digitChars [0, 1, 2, 3, 4, 5, 6, 7, 8, 9]) c"

fun parse_digits :: "int \<Rightarrow> string \<Rightarrow> int option" where
  "parse_digits acc [] = Some acc"
| "parse_digits acc (c # cs) =
     (case digit_val c of None \<Rightarrow> None | Some d \<Rightarrow> parse_digits (10 * acc + d) cs)"

definition is_leap_year :: "int \<Rightarrow> bool" where
  "is_leap_year y = (y mod 4 = 0 \<and> (y mod 100 \<noteq> 0 \<or> y mod 400 = 0))"

definition days_in_month :: "int \<Rightarrow> int \<Rightarrow> int" where
  "days_in_month y m =
     (if m = 2 then (if is_leap_year y then 29 else 28)
      else if m = 4 \<or> m = 6 \<or> m = 9 \<or> m = 11 then 30 else 31)"

text \<open>The number of days from 1970-01-01 to a date of the proleptic Gregorian calendar.\<close>

definition days_from_civil :: "int \<Rightarrow> int \<Rightarrow> int \<Rightarrow> int" where
  "days_from_civil y m d =
     (let y' = (if m \<le> 2 then y - 1 else y);
          era = y' div 400;
          yoe = y' - era * 400;
          doy = (153 * (if m > 2 then m - 3 else m + 9) + 2) div 5 + d - 1;
          doe = yoe * 365 + yoe div 4 - yoe div 100 + doy
      in era * 146097 + doe - 719468)"

text \<open>\<^verbatim>\<open>new Date(s)\<close> for the date-only form \<^verbatim>\<open>YYYY-MM-DD\<close>, which is what the date
  field of the event form stores: the host language reads a date-only form as midnight UTC of
  that day. \<open>None\<close> is the invalid date; a text that is not a calendar date in this form is
  outside the model and is given that value too.\<close>

definition parseDate :: "string \<Rightarrow> int option" where
  "parseDate s =
     (if length s = 10 \<and> s ! 4 = CHR ''-'' \<and> s ! 7 = CHR ''-'' then
        (case (parse_digits 0 (take 4 s), parse_digits 0 (take 2 (drop 5 s)),
               parse_digits 0 (drop 8 s)) of
           (Some y, Some m, Some d) \<Rightarrow>
             if 1 \<le> m \<and> m \<le> 12 \<and> 1 \<le> d \<and> d \<le> days_in_month y m
             then Some (days_from_civil y m d * MS_PER_DAY) else None
         | _ \<Rightarrow> None)
      else None)"

text \<open>\<^verbatim>\<open>today = new Date(); today.setHours(0, 0, 0, 0)\<close>: the instant of the last local
  midnight.\<close>

definition startOfToday :: "Clock \<Rightarrow> int" where
  "startOfToday clock =
     (let local = now_ms clock + tz_offset_min clock * MS_PER_MINUTE
      in (local div MS_PER_DAY) * MS_PER_DAY - tz_offset_min clock * MS_PER_MINUTE)"

text \<open>The calendar day that the browser's clock shows, as a day count from 1970-01-01.\<close>

definition localToday :: "Clock \<Rightarrow> int" where
  "localToday clock = (now_ms clock + tz_offset_min clock * MS_PER_MINUTE) div MS_PER_DAY"

text \<open>The filter of the index page. A comparison with the invalid date is false.\<close>

definition upcomingEvents :: "Store \<Rightarrow> Clock \<Rightarrow> Event list" where
  "upcomingEvents st clock =
     (let allEvents = getEvents st
      in filter (\<lambda>event.
           (case parseDate (ev_event_date event) of
              None \<Rightarrow> False
            | Some eventDate \<Rightarrow> eventDate \<ge> startOfToday clock)) allEvents)"

subsection \<open>The hosted-backend variant\<close>

text \<open>\<^verbatim>\<open>registerForEvent\<close> of the hosted variant computes the backup code from one random
  number; the argument is \<^verbatim>\<open>Math.random().toString(36)\<close>, the rendering of that number in
  base 36: \<^verbatim>\<open>0.\<close> followed by the digits, with no trailing zeros.\<close>

definition supabase_backup_code :: "CaseMapping \<Rightarrow> string \<Rightarrow> string" where
  "supabase_backup_code up random36 = toUpperCase up (substr random36 2 8)"

text \<open>\<^verbatim>\<open>processCheckIn\<close> of the scanner component. The row is what the query for the code
  returned, with the related user's name and the number of related attendance rows; \<open>None\<close>
  stands for no row or a query error. The result is the message shown and the registration id
  of the attendance row that is inserted, if one is.\<close>

record RegistrationRow =
  row_id :: string
  row_event_id :: string
  row_user_full_name :: string
  row_attendance_count :: nat

definition processCheckIn ::
  "string option \<Rightarrow> RegistrationRow option \<Rightarrow> bool \<Rightarrow> Message \<times> string option" where
  "processCheckIn eventId registration insertFails =
     (case registration of
        None \<Rightarrow> (Failure ''Invalid code or registration not found'', None)
      | Some row \<Rightarrow>
          if truthy eventId \<and> row_event_id row \<noteq> the eventId then
            (Failure ''This code is not for the current event'', None)
          else if row_attendance_count row > 0 then
            (Failure (row_user_full_name row @ '' is already checked in''), None)
          else if insertFails then
            (Failure ''Failed to check in attendee'', Some (row_id row))
          else
            (Succeeded (row_user_full_name row @ '' checked in successfully!''),
             Some (row_id row)))"

subsection \<open>Reachable stores\<close>

text \<open>The stores that the operations produce from the empty store.\<close>

inductive reachable :: "Store \<Rightarrow> bool" where
  init: "reachable empty_store"
| sign_in: "reachable st \<Longrightarrow> reachable (snd (signIn st env email password role fullName studentId))"
| sign_out: "reachable st \<Longrightarrow> reachable (signOut st)"
| create_event: "reachable st \<Longrightarrow> reachable (snd (createEvent st env eventData))"
| register: "reachable st \<Longrightarrow> reachable (snd (registerForEvent st env eventId userId userName userEmail))"
| delete: "reachable st \<Longrightarrow> reachable (snd (deleteRegistration st registrationId))"
| check_in: "reachable st \<Longrightarrow> reachable (snd (checkInAttendee st env registrationId method staffId))"
| scan: "reachable st \<Longrightarrow> reachable (snd (handleScan up st env usr selectedEventId scanInput))"
| clear: "reachable st \<Longrightarrow> reachable (clearAllData st)"

subsection \<open>Invariant and example data\<close>

text \<open>No two attendance records refer to the same registration.\<close>

definition att_unique :: "Store \<Rightarrow> bool" where
  "att_unique st = distinct (map att_registration_id (swiftattend_attendances st))"

text \<open>The conditions that \<^verbatim>\<open>signIn\<close> tests, in one formula.\<close>

abbreviation signIn_allowed :: "string \<Rightarrow> string \<Rightarrow> Role \<Rightarrow> string option \<Rightarrow> bool" where
  "signIn_allowed email password role fullName \<equiv>
     endsWith email ''@nmamit.in'' \<and>
     (role = Admin \<longrightarrow> password = ADMIN_PASSWORD) \<and>
     (role = Staff \<longrightarrow> password = STAFF_PASSWORD) \<and>
     (role = Participant \<longrightarrow> truthy fullName)"

text \<open>Concrete values on which the theorems below are instantiated: an environment whose
  random numbers are all one half, a staff user, two registrations for one event, their
  attendance records, and stores built from them.\<close>

definition env0 :: Env where
  "env0 = \<lparr> id_now = ''1700000000000'', id_random36 = ''0.k3j9x2m1qz7'',
     qr_now = ''1700000000001'', randoms = (\<lambda>i. 1 / 2),
     iso_now = ''2023-11-14T22:13:20.000Z'' \<rparr>"

text \<open>A case mapping for text that is not ASCII. The examples are ASCII, so it is never
  applied.\<close>

definition up0 :: CaseMapping where
  "up0 = (\<lambda>s. s)"

definition staff0 :: User where
  "staff0 = \<lparr> usr_id = ''user_1700000000000_s1'', usr_email = ''staff@nmamit.in'',
     usr_full_name = ''Staff'', usr_role = Staff, usr_student_id = None,
     usr_created_at = ''2023-11-14T22:13:20.000Z'' \<rparr>"

definition reg1 :: Registration where
  "reg1 = \<lparr> reg_id = ''r1'', reg_event_id = ''e1'', reg_user_id = ''u1'',
     reg_user_name = ''Asha'', reg_user_email = ''asha@nmamit.in'',
     reg_qr_code_data = ''SWIFTATTEND_e1_u1_r1_1700000000001'',
     reg_backup_code = ''AB12CD34'', reg_created_at = ''2023-11-14T22:13:20.000Z'' \<rparr>"

definition reg2 :: Registration where
  "reg2 = \<lparr> reg_id = ''r2'', reg_event_id = ''e1'', reg_user_id = ''u2'',
     reg_user_name = ''Ravi'', reg_user_email = ''ravi@nmamit.in'',
     reg_qr_code_data = ''SWIFTATTEND_e1_u2_r2_1700000000002'',
     reg_backup_code = ''ZZ99YY88'', reg_created_at = ''2023-11-14T22:14:20.000Z'' \<rparr>"

definition att1 :: Attendance where
  "att1 = \<lparr> att_id = ''a1'', att_registration_id = ''r1'', att_event_id = ''e1'',
     att_user_id = ''u1'', att_checked_in_at = ''2023-11-15T09:00:00.000Z'',
     att_check_in_method = backup_code, att_staff_id = ''s1'' \<rparr>"

definition att2 :: Attendance where
  "att2 = \<lparr> att_id = ''a2'', att_registration_id = ''r2'', att_event_id = ''e1'',
     att_user_id = ''u2'', att_checked_in_at = ''2023-11-15T09:01:00.000Z'',
     att_check_in_method = qr_scan, att_staff_id = ''s1'' \<rparr>"

definition store1 :: Store where
  "store1 = \<lparr> swiftattend_user = None, swiftattend_events = [],
     swiftattend_registrations = [reg1, reg2], swiftattend_attendances = [att1] \<rparr>"

text \<open>A registration of another event whose QR payload is the backup code of \<open>reg2\<close>, and
  a store that lists it after \<open>reg2\<close>.\<close>

definition reg3 :: Registration where
  "reg3 = \<lparr> reg_id = ''r3'', reg_event_id = ''e2'', reg_user_id = ''u3'',
     reg_user_name = ''Meera'', reg_user_email = ''meera@nmamit.in'',
     reg_qr_code_data = ''ZZ99YY88'',
     reg_backup_code = ''QQ11QQ11'', reg_created_at = ''2023-11-14T22:15:20.000Z'' \<rparr>"

definition store3 :: Store where
  "store3 = \<lparr> swiftattend_user = None, swiftattend_events = [],
     swiftattend_registrations = [reg1, reg2, reg3], swiftattend_attendances = [att1] \<rparr>"

text \<open>A store with 25 registrations and 7 attendance records of event \<open>e1\<close>, and one with
  3 and 1.\<close>

definition store25 :: Store where
  "store25 = \<lparr> swiftattend_user = None, swiftattend_events = [],
     swiftattend_registrations = replicate 25 reg1, swiftattend_attendances = replicate 7 att1 \<rparr>"

definition store31 :: Store where
  "store31 = \<lparr> swiftattend_user = None, swiftattend_events = [],
     swiftattend_registrations = [reg1, reg2, reg2], swiftattend_attendances = [att1] \<rparr>"

definition store2 :: Store where
  "store2 = \<lparr> swiftattend_user = None, swiftattend_events = [],
     swiftattend_registrations = [reg1, reg2], swiftattend_attendances = [att1, att2] \<rparr>"

text \<open>The registration that the first registration in the empty store creates under
  \<open>env0\<close>, the attendance record that a scan of its backup code by \<open>staff0\<close> creates, and
  the stores after the two steps.\<close>

definition reg0 :: Registration where
  "reg0 = \<lparr> reg_id = ''1700000000000_k3j9x2m1q'', reg_event_id = ''e1'', reg_user_id = ''u1'',
     reg_user_name = ''Asha'', reg_user_email = ''asha@nmamit.in'',
     reg_qr_code_data = ''SWIFTATTEND_e1_u1_1700000000000_k3j9x2m1q_1700000000001'',
     reg_backup_code = ''SSSSSSSS'', reg_created_at = ''2023-11-14T22:13:20.000Z'' \<rparr>"

definition att0 :: Attendance where
  "att0 = \<lparr> att_id = ''1700000000000_k3j9x2m1q'',
     att_registration_id = ''1700000000000_k3j9x2m1q'', att_event_id = ''e1'',
     att_user_id = ''u1'', att_checked_in_at = ''2023-11-14T22:13:20.000Z'',
     att_check_in_method = backup_code, att_staff_id = ''user_1700000000000_s1'' \<rparr>"

definition store_a :: Store where
  "store_a = \<lparr> swiftattend_user = None, swiftattend_events = [],
     swiftattend_registrations = [reg0], swiftattend_attendances = [] \<rparr>"

definition store_b :: Store where
  "store_b = \<lparr> swiftattend_user = None, swiftattend_events = [],
     swiftattend_registrations = [reg0], swiftattend_attendances = [att0] \<rparr>"

text \<open>Two events as the event form submits them, the second dated a month before the
  first, and the environment of the second creation; a store with one event dated
  2025-03-15; and two clocks that both read 17:00 UTC of that day, one five hours west of
  UTC, where it is noon of 2025-03-15, one five and a half hours east.\<close>

definition event_feb :: Event where
  "event_feb = \<lparr> ev_id = [], ev_name = ''Tech Talk'', ev_description = Some ''Talk'',
     ev_event_date = ''2025-02-01'', ev_start_time = ''10:00'', ev_end_time = ''11:00'',
     ev_location = ''Hall A'', ev_max_capacity = None, ev_poster_url = Some [],
     ev_created_by = ''user_1700000000000_a1'', ev_created_at = [] \<rparr>"

definition event_jan :: Event where
  "event_jan = \<lparr> ev_id = [], ev_name = ''Orientation'', ev_description = Some ''Welcome'',
     ev_event_date = ''2025-01-01'', ev_start_time = ''09:00'', ev_end_time = ''10:00'',
     ev_location = ''Hall B'', ev_max_capacity = Some 100, ev_poster_url = Some [],
     ev_created_by = ''user_1700000000000_a1'', ev_created_at = [] \<rparr>"

definition env1 :: Env where
  "env1 = \<lparr> id_now = ''1700000060000'', id_random36 = ''0.p0o9i8u7y6t'',
     qr_now = ''1700000060001'', randoms = (\<lambda>i. 1 / 4),
     iso_now = ''2023-11-14T22:14:20.000Z'' \<rparr>"

definition event_today :: Event where
  "event_today = \<lparr> ev_id = ''1700000000000_k3j9x2m1q'', ev_name = ''Hackathon'',
     ev_description = None, ev_event_date = ''2025-03-15'', ev_start_time = ''18:00'',
     ev_end_time = ''21:00'', ev_location = ''Lab 2'', ev_max_capacity = None,
     ev_poster_url = None, ev_created_by = ''user_1700000000000_a1'',
     ev_created_at = ''2023-11-14T22:13:20.000Z'' \<rparr>"

definition store_ev :: Store where
  "store_ev = \<lparr> swiftattend_user = None, swiftattend_events = [event_today],
     swiftattend_registrations = [], swiftattend_attendances = [] \<rparr>"

definition clock_west :: Clock where
  "clock_west = \<lparr> now_ms = 1742058000000, tz_offset_min = - 300 \<rparr>"

definition clock_east :: Clock where
  "clock_east = \<lparr> now_ms = 1742058000000, tz_offset_min = 330 \<rparr>"

section \<open>Properties\<close>

lemmas fixtures = env0_def staff0_def reg1_def reg2_def att1_def att2_def store1_def store2_def
  up0_def reg3_def store3_def

subsection \<open>Searching a list\<close>

lemma find_first_Some_ex: "\<exists>x \<in> set xs. P x \<Longrightarrow> \<exists>y. find_first P xs = Some y"
  by (cases "List.find P xs") (auto simp: find_first_def find_None_iff)

lemma find_first_SomeD: "find_first P xs = Some x \<Longrightarrow> x \<in> set xs \<and> P x"
  by (auto simp: find_first_def find_Some_iff)

lemma find_first_None: "find_first P xs = None \<longleftrightarrow> (\<forall>x \<in> set xs. \<not> P x)"
  by (auto simp: find_first_def find_None_iff)

lemma filter_length_neq:
  "x \<in> set xs \<Longrightarrow> \<not> P x \<Longrightarrow> length (filter P xs) \<noteq> length xs"
  using length_filter_less [of x xs P] by simp

subsection \<open>Sign-in\<close>

lemma endsWith_set: "endsWith s t \<Longrightarrow> set t \<subseteq> set s"
  unfolding endsWith_def by (metis set_drop_subset)

lemma endsWith_domain_nonempty: "endsWith email ''@nmamit.in'' \<Longrightarrow> email \<noteq> []"
  by (auto simp: endsWith_def)

lemma endsWith_domain_at: "endsWith email ''@nmamit.in'' \<Longrightarrow> includes_char email (CHR ''@'')"
  using endsWith_set [of email "''@nmamit.in''"] by (auto simp: includes_char_def)

lemma validateEmail_valid: "valid (validateEmail email) \<longleftrightarrow> endsWith email ''@nmamit.in''"
  using endsWith_domain_nonempty [of email] endsWith_domain_at [of email]
  by (auto simp: validateEmail_def)

lemma validateEmail_error:
  "error_text (validateEmail email) =
     (if email = [] then Some ''Email is required''
      else if \<not> includes_char email (CHR ''@'') then Some ''Please enter a valid email address''
      else if \<not> endsWith email ''@nmamit.in'' then Some ''Email must end with @nmamit.in''
      else None)"
  by (simp add: validateEmail_def)

lemma signIn_bad_email:
  "\<not> endsWith email ''@nmamit.in'' \<Longrightarrow>
   signIn st env email password role fullName studentId =
     (\<lparr> success = False, error = error_text (validateEmail email), user = None \<rparr>, st)"
  by (simp add: signIn_def validateEmail_valid)

lemma signIn_bad_admin:
  "endsWith email ''@nmamit.in'' \<Longrightarrow> password \<noteq> ADMIN_PASSWORD \<Longrightarrow>
   signIn st env email password Admin fullName studentId =
     (\<lparr> success = False,
        error = Some ''Invalid admin password. Contact administrator for access.'',
        user = None \<rparr>, st)"
  by (simp add: signIn_def validateEmail_valid)

lemma signIn_bad_staff:
  "endsWith email ''@nmamit.in'' \<Longrightarrow> password \<noteq> STAFF_PASSWORD \<Longrightarrow>
   signIn st env email password Staff fullName studentId =
     (\<lparr> success = False,
        error = Some ''Invalid staff password. Contact administrator for access.'',
        user = None \<rparr>, st)"
  by (simp add: signIn_def validateEmail_valid)

lemma signIn_no_name:
  "endsWith email ''@nmamit.in'' \<Longrightarrow> \<not> truthy fullName \<Longrightarrow>
   signIn st env email password Participant fullName studentId =
     (\<lparr> success = False, error = Some ''Full name is required for participants.'',
        user = None \<rparr>, st)"
  by (simp add: signIn_def validateEmail_valid)

lemma signIn_ok:
  "signIn_allowed email password role fullName \<Longrightarrow>
   \<exists>u. signIn st env email password role fullName studentId =
         (\<lparr> success = True, error = None, user = Some u \<rparr>, st\<lparr> swiftattend_user := Some u \<rparr>)
       \<and> usr_email u = email \<and> usr_role u = role"
  by (cases role) (simp_all add: signIn_def validateEmail_valid Let_def)

lemma signIn_not_allowed:
  assumes na: "\<not> signIn_allowed email password role fullName"
  shows "signIn st env email password role fullName studentId =
     (\<lparr> success = False,
        error = (if email = [] then Some ''Email is required''
          else if \<not> includes_char email (CHR ''@'') then Some ''Please enter a valid email address''
          else if \<not> endsWith email ''@nmamit.in'' then Some ''Email must end with @nmamit.in''
          else if role = Admin then
            Some ''Invalid admin password. Contact administrator for access.''
          else if role = Staff then
            Some ''Invalid staff password. Contact administrator for access.''
          else Some ''Full name is required for participants.''),
        user = None \<rparr>, st)"
proof (cases "endsWith email ''@nmamit.in''")
  case False
  then show ?thesis
    using endsWith_domain_nonempty [of email] endsWith_domain_at [of email]
    by (simp add: signIn_bad_email validateEmail_error)
next
  case True
  note dom = endsWith_domain_nonempty [OF True] endsWith_domain_at [OF True]
  show ?thesis
  proof (cases role)
    case Admin
    with na True have "password \<noteq> ADMIN_PASSWORD" by simp
    with True Admin dom show ?thesis by (simp add: signIn_bad_admin)
  next
    case Staff
    with na True have "password \<noteq> STAFF_PASSWORD" by simp
    with True Staff dom show ?thesis by (simp add: signIn_bad_staff)
  next
    case Participant
    with na True have "\<not> truthy fullName" by simp
    with True Participant dom show ?thesis by (simp add: signIn_no_name)
  qed
qed

text \<open>
  C9. Sign-in succeeds exactly when the email ends with \<^verbatim>\<open>@nmamit.in\<close> and, for the roles
  admin and staff, the password is the shared static password (the two constants are equal)
  and, for the role participant, a non-empty full name is given. On success the user is
  stored under the user key. On failure the store is unchanged, no user is returned, and the
  error text is that of the first test that failed.
\<close>

theorem signIn_succeeds_iff:
  fixes st env email password role fullName studentId
  defines "r \<equiv> signIn st env email password role fullName studentId"
  shows "ADMIN_PASSWORD = STAFF_PASSWORD \<and>
    (success (fst r) \<longleftrightarrow>
       endsWith email ''@nmamit.in'' \<and>
       (role = Admin \<or> role = Staff \<longrightarrow> password = ADMIN_PASSWORD) \<and>
       (role = Participant \<longrightarrow> fullName \<noteq> None \<and> fullName \<noteq> Some [])) \<and>
    (success (fst r) \<longrightarrow>
       (\<exists>u. user (fst r) = Some u \<and> usr_email u = email \<and> usr_role u = role \<and>
            snd r = st\<lparr> swiftattend_user := Some u \<rparr>)) \<and>
    (\<not> success (fst r) \<longrightarrow>
       snd r = st \<and> user (fst r) = None \<and>
       error (fst r) =
         (if email = [] then Some ''Email is required''
          else if \<not> includes_char email (CHR ''@'') then Some ''Please enter a valid email address''
          else if \<not> endsWith email ''@nmamit.in'' then Some ''Email must end with @nmamit.in''
          else if role = Admin then
            Some ''Invalid admin password. Contact administrator for access.''
          else if role = Staff then
            Some ''Invalid staff password. Contact administrator for access.''
          else Some ''Full name is required for participants.''))"
proof -
  have pw: "ADMIN_PASSWORD = STAFF_PASSWORD"
    by (simp add: ADMIN_PASSWORD_def STAFF_PASSWORD_def)
  have allowed: "signIn_allowed email password role fullName \<longleftrightarrow>
       endsWith email ''@nmamit.in'' \<and>
       (role = Admin \<or> role = Staff \<longrightarrow> password = ADMIN_PASSWORD) \<and>
       (role = Participant \<longrightarrow> fullName \<noteq> None \<and> fullName \<noteq> Some [])"
    using pw by (cases fullName; cases role) auto
  show ?thesis
  proof (cases "signIn_allowed email password role fullName")
    case True
    from signIn_ok [OF True, of st env studentId]
    obtain u where "r = (\<lparr> success = True, error = None, user = Some u \<rparr>,
        st\<lparr> swiftattend_user := Some u \<rparr>)" "usr_email u = email" "usr_role u = role"
      unfolding r_def by blast
    with True allowed pw show ?thesis by simp
  next
    case False
    have eq: "r = (\<lparr> success = False,
        error = (if email = [] then Some ''Email is required''
          else if \<not> includes_char email (CHR ''@'') then Some ''Please enter a valid email address''
          else if \<not> endsWith email ''@nmamit.in'' then Some ''Email must end with @nmamit.in''
          else if role = Admin then
            Some ''Invalid admin password. Contact administrator for access.''
          else if role = Staff then
            Some ''Invalid staff password. Contact administrator for access.''
          else Some ''Full name is required for participants.''),
        user = None \<rparr>, st)"
      unfolding r_def by (rule signIn_not_allowed [OF False])
    from False allowed have nc: "\<not> (endsWith email ''@nmamit.in'' \<and>
       (role = Admin \<or> role = Staff \<longrightarrow> password = ADMIN_PASSWORD) \<and>
       (role = Participant \<longrightarrow> fullName \<noteq> None \<and> fullName \<noteq> Some []))"
      by blast
    have "\<not> success (fst r)" "snd r = st" "user (fst r) = None"
      by (simp_all add: eq)
    moreover have "error (fst r) = (if email = [] then Some ''Email is required''
          else if \<not> includes_char email (CHR ''@'') then Some ''Please enter a valid email address''
          else if \<not> endsWith email ''@nmamit.in'' then Some ''Email must end with @nmamit.in''
          else if role = Admin then
            Some ''Invalid admin password. Contact administrator for access.''
          else if role = Staff then
            Some ''Invalid staff password. Contact administrator for access.''
          else Some ''Full name is required for participants.'')"
      by (simp add: eq)
    ultimately show ?thesis using pw nc by blast
  qed
qed

theorem signIn_succeeds_iff_witness:
  "success (fst (signIn empty_store env0 ''asha@nmamit.in'' ''14567'' Admin None None)) \<and>
   \<not> success (fst (signIn empty_store env0 ''asha@nmamit.in'' ''12345'' Staff None None)) \<and>
   snd (signIn empty_store env0 ''asha@nmamit.in'' ''12345'' Staff None None) = empty_store \<and>
   error (fst (signIn empty_store env0 ''asha@nmamit.in'' ''12345'' Staff None None)) =
     Some ''Invalid staff password. Contact administrator for access.'' \<and>
   success (fst (signIn empty_store env0 ''asha@nmamit.in'' [] Participant (Some ''Asha'') None)) \<and>
   \<not> success (fst (signIn empty_store env0 ''asha@gmail.com'' ''14567'' Admin (Some ''Asha'') None))"
  using signIn_succeeds_iff [of empty_store env0 "''asha@nmamit.in''" "''14567''" Admin None None]
    signIn_succeeds_iff [of empty_store env0 "''asha@nmamit.in''" "''12345''" Staff None None]
    signIn_succeeds_iff [of empty_store env0 "''asha@nmamit.in''" "[]" Participant "Some ''Asha''" None]
    signIn_succeeds_iff [of empty_store env0 "''asha@gmail.com''" "''14567''" Admin "Some ''Asha''" None]
  by (simp add: endsWith_def includes_char_def ADMIN_PASSWORD_def STAFF_PASSWORD_def)

subsection \<open>Event statistics\<close>

declare scale_mantissa.simps [simp del]

lemmas double_defs = round_double_def scale_mantissa.simps round_half_even_def Let_def

lemma round_double_0: "round_double 0 = 0"
  by (simp add: round_double_def)

lemma round_double_1: "round_double 1 = 1"
  by (simp add: double_defs)

lemma round_double_100: "round_double 100 = 100"
  by (simp add: double_defs)

text \<open>The scaling keeps the product of mantissa and unit, and with enough fuel it ends with
  the mantissa between \<open>2^52\<close> and \<open>2^53\<close>.\<close>

lemma round_half_even_near: "\<bar>real_of_int (round_half_even m) - m\<bar> \<le> 1 / 2"
proof -
  have "real_of_int \<lfloor>m\<rfloor> \<le> m" "m < real_of_int \<lfloor>m\<rfloor> + 1" by linarith+
  then show ?thesis
    by (auto simp: round_half_even_def Let_def)
qed

lemma scale_invariant:
  "0 < u \<Longrightarrow> scale_mantissa fuel m u = (m', u') \<Longrightarrow> m' * u' = m * u \<and> 0 < u'"
proof (induction fuel m u rule: scale_mantissa.induct)
  case (1 fuel m u)
  show ?case
  proof (cases "fuel = 0")
    case True
    with "1.prems" show ?thesis by (simp add: scale_mantissa.simps)
  next
    case nz: False
    show ?thesis
    proof (cases "m < 4503599627370496")
      case True
      with nz "1.prems" have "scale_mantissa (fuel - 1) (m * 2) (u / 2) = (m', u')"
        by (simp add: scale_mantissa.simps [of fuel m u])
      with "1.IH"(1) [OF nz True] "1.prems"(1) show ?thesis by simp
    next
      case small: False
      show ?thesis
      proof (cases "m \<ge> 9007199254740992")
        case True
        with nz small "1.prems" have "scale_mantissa (fuel - 1) (m / 2) (u * 2) = (m', u')"
          by (simp add: scale_mantissa.simps [of fuel m u])
        with "1.IH"(2) [OF nz small True] "1.prems"(1) show ?thesis by simp
      next
        case False
        with nz small "1.prems" show ?thesis
          by (simp add: scale_mantissa.simps [of fuel m u])
      qed
    qed
  qed
qed

lemma scale_up:
  "m < 9007199254740992 \<Longrightarrow> 4503599627370496 \<le> m * 2 ^ fuel \<Longrightarrow>
   4503599627370496 \<le> fst (scale_mantissa fuel m u) \<and>
   fst (scale_mantissa fuel m u) < 9007199254740992"
proof (induction fuel arbitrary: m u)
  case 0
  then show ?case by (simp add: scale_mantissa.simps)
next
  case (Suc fuel)
  show ?case
  proof (cases "m < 4503599627370496")
    case True
    then have "m * 2 < 9007199254740992" by simp
    moreover from Suc.prems have "4503599627370496 \<le> (m * 2) * 2 ^ fuel" by (simp add: ac_simps)
    ultimately have "4503599627370496 \<le> fst (scale_mantissa fuel (m * 2) (u / 2)) \<and>
        fst (scale_mantissa fuel (m * 2) (u / 2)) < 9007199254740992"
      by (rule Suc.IH)
    with True show ?thesis by (simp add: scale_mantissa.simps [of "Suc fuel" m u])
  next
    case False
    with Suc.prems show ?thesis by (simp add: scale_mantissa.simps [of "Suc fuel" m u])
  qed
qed

lemma scale_down:
  "4503599627370496 \<le> m \<Longrightarrow> m < 9007199254740992 * 2 ^ fuel \<Longrightarrow>
   4503599627370496 \<le> fst (scale_mantissa fuel m u) \<and>
   fst (scale_mantissa fuel m u) < 9007199254740992"
proof (induction fuel arbitrary: m u)
  case 0
  then show ?case by (simp add: scale_mantissa.simps)
next
  case (Suc fuel)
  show ?case
  proof (cases "m \<ge> 9007199254740992")
    case True
    then have "4503599627370496 \<le> m / 2" by simp
    moreover from Suc.prems have "m / 2 < 9007199254740992 * 2 ^ fuel" by simp
    ultimately have "4503599627370496 \<le> fst (scale_mantissa fuel (m / 2) (u * 2)) \<and>
        fst (scale_mantissa fuel (m / 2) (u * 2)) < 9007199254740992"
      by (rule Suc.IH)
    with True Suc.prems show ?thesis by (simp add: scale_mantissa.simps [of "Suc fuel" m u])
  next
    case False
    with Suc.prems show ?thesis by (simp add: scale_mantissa.simps [of "Suc fuel" m u])
  qed
qed

lemma scale_normal:
  assumes "1 / 2 ^ 64 \<le> x" and "x < 2 ^ 64"
  shows "4503599627370496 \<le> fst (scale_mantissa 2200 x 1) \<and>
     fst (scale_mantissa 2200 x 1) < 9007199254740992"
proof (cases "x < 9007199254740992")
  case True
  from assms(1) have "1 \<le> x * 2 ^ 64" by (simp add: field_simps)
  then have "2 ^ 2136 \<le> (x * 2 ^ 64) * 2 ^ 2136" by simp
  then have "2 ^ 2136 \<le> x * 2 ^ 2200" by (simp add: power_add [symmetric] mult.assoc)
  moreover have "(4503599627370496::real) \<le> 2 ^ 2136" by simp
  ultimately have "4503599627370496 \<le> x * 2 ^ 2200" by linarith
  with True show ?thesis by (rule scale_up)
next
  case False
  then have a: "4503599627370496 \<le> x" by simp
  have "(2::real) ^ 64 \<le> 9007199254740992 * 2 ^ 2200" by simp
  with assms(2) have "x < 9007199254740992 * 2 ^ 2200" by linarith
  with a show ?thesis by (rule scale_down)
qed

text \<open>Between \<open>2^-64\<close> and \<open>2^64\<close> the scaling ends with a mantissa of 53 bits, and
  \<open>round_double\<close> is within half a unit of the last place of its argument.\<close>

lemma round_double_error:
  assumes "1 / 2 ^ 64 \<le> x" and "x < 2 ^ 64"
  shows "\<bar>round_double x - x\<bar> \<le> x / 2 ^ 53"
proof -
  obtain m u where s: "scale_mantissa 2200 x 1 = (m, u)" by (cases "scale_mantissa 2200 x 1")
  have "(0::real) < 1 / 2 ^ 64" by simp
  with assms(1) have pos: "0 < x" by linarith
  from scale_invariant [OF _ s] have p: "m * u = x" "0 < u" by simp_all
  from scale_normal [OF assms] s have n: "4503599627370496 \<le> m" by simp
  from pos s have r: "round_double x = real_of_int (round_half_even m) * u"
    by (simp add: round_double_def)
  have "round_double x - x = real_of_int (round_half_even m) * u - m * u"
    using r p(1) by simp
  then have "round_double x - x = (real_of_int (round_half_even m) - m) * u"
    by (simp add: algebra_simps)
  then have "\<bar>round_double x - x\<bar> = \<bar>real_of_int (round_half_even m) - m\<bar> * u"
    using p(2) by (simp add: abs_mult)
  also have "\<dots> \<le> (1 / 2) * u"
    using round_half_even_near [of m] p(2) by (intro mult_right_mono) simp_all
  also have "\<dots> \<le> x / 2 ^ 53"
  proof -
    from n p have "4503599627370496 * u \<le> x" by (metis less_eq_real_def mult_right_mono)
    then show ?thesis by simp
  qed
  finally show ?thesis .
qed


lemma rate_error:
  assumes n: "0 < n" "n < 2 ^ 32" and k: "0 < k" "k < 2 ^ 32"
  shows "\<bar>round_double (round_double (real k / real n) * 100) - real k / real n * 100\<bar>
     \<le> real k / real n * 100 / 2 ^ 51"
proof -
  define x where "x = real k / real n"
  define y where "y = round_double x"
  define w where "w = round_double (y * 100)"
  have kn: "1 \<le> real k" "1 \<le> real n" "real k < 2 ^ 32" "real n < 2 ^ 32"
    using n k by (simp_all add: of_nat_less_numeral_power_cancel_iff)
  have "1 / 2 ^ 32 \<le> 1 / real n" using kn by (intro divide_left_mono) simp_all
  also have "\<dots> \<le> real k / real n" using kn by (intro divide_right_mono) simp_all
  finally have lo: "1 / 2 ^ 32 \<le> x" by (simp add: x_def)
  have "real k / real n \<le> real k / 1" using kn by (intro divide_left_mono) simp_all
  with kn have hi: "x < 2 ^ 32" by (simp add: x_def)
  have "(0::real) < 1 / 2 ^ 32" by simp
  with lo have pos: "0 < x" by linarith
  have "1 / 2 ^ 64 \<le> x" "x < 2 ^ 64" using lo hi by simp_all
  then have ey: "\<bar>y - x\<bar> \<le> x / 2 ^ 53"
    unfolding y_def by (rule round_double_error)
  from ey have yb: "x - x / 2 ^ 53 \<le> y" "y \<le> x + x / 2 ^ 53"
    unfolding abs_le_iff by linarith+
  from yb lo hi have "1 / 2 ^ 64 \<le> y * 100" "y * 100 < 2 ^ 64" by simp_all
  then have ew: "\<bar>w - y * 100\<bar> \<le> y * 100 / 2 ^ 53"
    unfolding w_def by (rule round_double_error)
  from ew have wb: "y * 100 - y * 100 / 2 ^ 53 \<le> w" "w \<le> y * 100 + y * 100 / 2 ^ 53"
    unfolding abs_le_iff by linarith+
  from yb wb pos have "x * 100 - x * 100 / 2 ^ 51 \<le> w" "w \<le> x * 100 + x * 100 / 2 ^ 51"
    by simp_all
  then have "\<bar>w - x * 100\<bar> \<le> x * 100 / 2 ^ 51"
    unfolding abs_le_iff by linarith
  then show ?thesis by (simp add: w_def y_def x_def)
qed

lemma getEventStats_fields:
  "getEventStats st eventId =
     \<lparr> totalRegistrations =
         length (filter (\<lambda>reg. reg_event_id reg = eventId) (swiftattend_registrations st)),
       totalAttendances =
         length (filter (\<lambda>att. att_event_id att = eventId) (swiftattend_attendances st)),
       attendanceRate =
         (if length (filter (\<lambda>reg. reg_event_id reg = eventId) (swiftattend_registrations st)) > 0
          then times_number
            (divide_number
              (length (filter (\<lambda>att. att_event_id att = eventId) (swiftattend_attendances st)))
              (length (filter (\<lambda>reg. reg_event_id reg = eventId) (swiftattend_registrations st))))
            100
          else Finite 0) \<rparr>"
  by (simp add: getEventStats_def getEventRegistrations_def getEventAttendances_def
      getRegistrations_def getAttendances_def Let_def)

text \<open>
  C10. For every event id the statistics are the number of the event's registrations, the
  number of its attendance records, and a rate that is 0 when there is no registration and
  otherwise the quotient of attendances by registrations times 100, as double arithmetic
  computes it: the quotient is rounded to a double, and so is its product with 100. The rate is
  always a finite number, since the division by a zero count is never evaluated; it is exactly
  100 when the two counts are equal and exactly 0 when there is no attendance; and for counts
  below \<open>2^32\<close>, which array lengths are, it differs from the exact value of the quotient
  times 100 by at most that value divided by \<open>2^51\<close>.
\<close>

theorem getEventStats_rate:
  fixes st eventId
  defines "n \<equiv> length (filter (\<lambda>reg. reg_event_id reg = eventId) (swiftattend_registrations st))"
    and "k \<equiv> length (filter (\<lambda>att. att_event_id att = eventId) (swiftattend_attendances st))"
  shows "totalRegistrations (getEventStats st eventId) = n \<and>
     totalAttendances (getEventStats st eventId) = k \<and>
     (n = 0 \<longrightarrow> attendanceRate (getEventStats st eventId) = Finite 0) \<and>
     (n \<noteq> 0 \<longrightarrow> attendanceRate (getEventStats st eventId) =
        Finite (round_double (round_double (real k / real n) * 100))) \<and>
     (n \<noteq> 0 \<and> k = n \<longrightarrow> attendanceRate (getEventStats st eventId) = Finite 100) \<and>
     (n \<noteq> 0 \<and> k = 0 \<longrightarrow> attendanceRate (getEventStats st eventId) = Finite 0) \<and>
     (n \<noteq> 0 \<and> n < 2 ^ 32 \<and> k < 2 ^ 32 \<longrightarrow>
        (\<exists>v. attendanceRate (getEventStats st eventId) = Finite v \<and>
           \<bar>v - real k / real n * 100\<bar> \<le> real k / real n * 100 / 2 ^ 51)) \<and>
     attendanceRate (getEventStats st eventId) \<noteq> NaN \<and>
     attendanceRate (getEventStats st eventId) \<noteq> Infinity"
proof -
  have counts: "totalRegistrations (getEventStats st eventId) = n"
    "totalAttendances (getEventStats st eventId) = k"
    by (simp_all add: getEventStats_fields n_def k_def)
  have zero: "n = 0 \<longrightarrow> attendanceRate (getEventStats st eventId) = Finite 0"
    by (simp add: getEventStats_fields n_def)
  have rate: "attendanceRate (getEventStats st eventId) =
      Finite (round_double (round_double (real k / real n) * 100))" if "n \<noteq> 0"
    using that by (simp add: getEventStats_fields n_def k_def divide_number_def)
  have full: "n \<noteq> 0 \<and> k = n \<longrightarrow> attendanceRate (getEventStats st eventId) = Finite 100"
  proof
    assume h: "n \<noteq> 0 \<and> k = n"
    then have "real k / real n = 1" by simp
    with rate h show "attendanceRate (getEventStats st eventId) = Finite 100"
      by (simp add: round_double_1 round_double_100)
  qed
  have none: "n \<noteq> 0 \<and> k = 0 \<longrightarrow> attendanceRate (getEventStats st eventId) = Finite 0"
  proof
    assume h: "n \<noteq> 0 \<and> k = 0"
    then have "real k / real n = 0" by simp
    with rate h show "attendanceRate (getEventStats st eventId) = Finite 0"
      by (simp add: round_double_0)
  qed
  have fin: "attendanceRate (getEventStats st eventId) \<noteq> NaN"
    "attendanceRate (getEventStats st eventId) \<noteq> Infinity"
    using zero rate by (cases "n = 0"; simp)+
  have near: "n \<noteq> 0 \<and> n < 2 ^ 32 \<and> k < 2 ^ 32 \<longrightarrow>
        (\<exists>v. attendanceRate (getEventStats st eventId) = Finite v \<and>
           \<bar>v - real k / real n * 100\<bar> \<le> real k / real n * 100 / 2 ^ 51)"
  proof
    assume h: "n \<noteq> 0 \<and> n < 2 ^ 32 \<and> k < 2 ^ 32"
    show "\<exists>v. attendanceRate (getEventStats st eventId) = Finite v \<and>
           \<bar>v - real k / real n * 100\<bar> \<le> real k / real n * 100 / 2 ^ 51"
    proof (cases "k = 0")
      case True
      with h none have "attendanceRate (getEventStats st eventId) = Finite 0" by simp
      with True show ?thesis by simp
    next
      case False
      with h have "\<bar>round_double (round_double (real k / real n) * 100) - real k / real n * 100\<bar>
          \<le> real k / real n * 100 / 2 ^ 51"
        by (intro rate_error) simp_all
      with rate h show ?thesis by simp
    qed
  qed
  from counts zero rate full none near fin show ?thesis by blast
qed

text \<open>One attendance of two registrations gives 50; 7 of 25 give the double next above 28,
  which the host language prints as 28.000000000000004; 1 of 3 gives the double that it prints
  as 33.33333333333333; an event without registrations gives 0.\<close>

theorem getEventStats_rate_witness:
  "attendanceRate (getEventStats store1 ''e1'') = Finite 50 \<and>
   totalRegistrations (getEventStats store1 ''e1'') = 2 \<and>
   totalAttendances (getEventStats store1 ''e1'') = 1 \<and>
   totalRegistrations (getEventStats store25 ''e1'') = 25 \<and>
   totalAttendances (getEventStats store25 ''e1'') = 7 \<and>
   attendanceRate (getEventStats store25 ''e1'') =
     Finite (7881299347898369 / 281474976710656) \<and>
   attendanceRate (getEventStats store31 ''e1'') =
     Finite (4691249611844266 / 140737488355328) \<and>
   attendanceRate (getEventStats store1 ''e9'') = Finite 0"
proof -
  have r50: "round_double (round_double (1 / 2) * 100) = 50"
    by (simp add: double_defs)
  have r28: "round_double (round_double (7 / 25) * 100) = 7881299347898369 / 281474976710656"
    by (simp add: double_defs)
  have r33: "round_double (round_double (1 / 3) * 100) = 4691249611844266 / 140737488355328"
    by (simp add: double_defs)
  from getEventStats_rate [of store1 "''e1''"] r50
  have a: "attendanceRate (getEventStats store1 ''e1'') = Finite 50"
    "totalRegistrations (getEventStats store1 ''e1'') = 2"
    "totalAttendances (getEventStats store1 ''e1'') = 1"
    by (simp_all add: fixtures)
  from getEventStats_rate [of store25 "''e1''"] r28
  have b: "totalRegistrations (getEventStats store25 ''e1'') = 25"
    "totalAttendances (getEventStats store25 ''e1'') = 7"
    "attendanceRate (getEventStats store25 ''e1'') =
       Finite (7881299347898369 / 281474976710656)"
    by (simp_all add: store25_def reg1_def att1_def)
  from getEventStats_rate [of store31 "''e1''"] r33
  have c: "attendanceRate (getEventStats store31 ''e1'') =
      Finite (4691249611844266 / 140737488355328)"
    by (simp add: store31_def reg1_def reg2_def att1_def)
  from getEventStats_rate [of store1 "''e9''"]
  have d: "attendanceRate (getEventStats store1 ''e9'') = Finite 0"
    by (simp add: fixtures)
  from a b c d show ?thesis by simp
qed

subsection \<open>Deleting a registration\<close>

text \<open>
  C5. Deleting a registration id that is present in the store succeeds, removes the
  registrations with that id and every attendance record that refers to it, and keeps every
  other registration and every other attendance record, in their order; the events and the
  signed-in user are unchanged.
\<close>

theorem deleteRegistration_cascade:
  assumes present: "\<exists>reg \<in> set (swiftattend_registrations st). reg_id reg = registrationId"
  shows "fst (deleteRegistration st registrationId) = True \<and>
     swiftattend_registrations (snd (deleteRegistration st registrationId)) =
       filter (\<lambda>reg. reg_id reg \<noteq> registrationId) (swiftattend_registrations st) \<and>
     swiftattend_attendances (snd (deleteRegistration st registrationId)) =
       filter (\<lambda>att. att_registration_id att \<noteq> registrationId) (swiftattend_attendances st) \<and>
     swiftattend_events (snd (deleteRegistration st registrationId)) = swiftattend_events st \<and>
     swiftattend_user (snd (deleteRegistration st registrationId)) = swiftattend_user st \<and>
     \<not> isAttendeeCheckedIn (snd (deleteRegistration st registrationId)) registrationId"
proof -
  from present obtain reg where "reg \<in> set (swiftattend_registrations st)"
    "\<not> reg_id reg \<noteq> registrationId" by auto
  then have "length (filter (\<lambda>reg. reg_id reg \<noteq> registrationId) (swiftattend_registrations st))
      \<noteq> length (swiftattend_registrations st)"
    by (rule filter_length_neq)
  then show ?thesis
    by (simp add: deleteRegistration_def getRegistrations_def getAttendances_def Let_def
        isAttendeeCheckedIn_def list_ex_iff)
qed

theorem deleteRegistration_cascade_witness:
  "(\<exists>reg \<in> set (swiftattend_registrations store2). reg_id reg = ''r1'') \<and>
   swiftattend_registrations (snd (deleteRegistration store2 ''r1'')) = [reg2] \<and>
   swiftattend_attendances (snd (deleteRegistration store2 ''r1'')) = [att2]"
proof -
  have h: "\<exists>reg \<in> set (swiftattend_registrations store2). reg_id reg = ''r1''"
    by (simp add: fixtures)
  from deleteRegistration_cascade [OF h] h show ?thesis
    by (simp add: fixtures)
qed

subsection \<open>Registering\<close>

lemma registerForEvent_conflict:
  "\<exists>reg \<in> set (swiftattend_registrations st). reg_event_id reg = eventId \<and> reg_user_id reg = userId \<Longrightarrow>
   registerForEvent st env eventId userId userName userEmail = (Inl AlreadyRegistered, st)"
  using find_first_Some_ex [of "swiftattend_registrations st"
      "\<lambda>reg. reg_event_id reg = eventId \<and> reg_user_id reg = userId"]
  by (auto simp: registerForEvent_def getRegistrations_def Let_def)

lemma registerForEvent_success:
  "registerForEvent st env eventId userId userName userEmail = (Inr reg, st') \<Longrightarrow>
   reg_event_id reg = eventId \<and> reg_user_id reg = userId \<and>
   st' = st\<lparr> swiftattend_registrations := swiftattend_registrations st @ [reg] \<rparr>"
  by (auto simp: registerForEvent_def getRegistrations_def Let_def split: option.splits)

text \<open>
  C2. When the store holds a registration of the user for the event, registering throws
  the error whose text is \<^verbatim>\<open>Already registered for this event\<close> and the store is
  unchanged. In particular, after a registration that succeeded, every further registration
  of the same user for the same event fails so, whatever name, email, clock and random
  numbers it comes with.
\<close>

theorem registerForEvent_twice_conflict:
  "((\<exists>reg \<in> set (swiftattend_registrations st).
        reg_event_id reg = eventId \<and> reg_user_id reg = userId) \<longrightarrow>
      registerForEvent st env eventId userId userName userEmail = (Inl AlreadyRegistered, st)) \<and>
   (registerForEvent st env eventId userId userName userEmail = (Inr reg, st') \<longrightarrow>
      registerForEvent st' env' eventId userId userName' userEmail' = (Inl AlreadyRegistered, st')) \<and>
   message AlreadyRegistered = ''Already registered for this event''"
proof -
  have second: "registerForEvent st' env' eventId userId userName' userEmail' =
      (Inl AlreadyRegistered, st')"
    if first: "registerForEvent st env eventId userId userName userEmail = (Inr reg, st')"
  proof -
    from registerForEvent_success [OF first]
    have "\<exists>r \<in> set (swiftattend_registrations st').
        reg_event_id r = eventId \<and> reg_user_id r = userId"
      by auto
    then show ?thesis by (rule registerForEvent_conflict)
  qed
  show ?thesis
    using registerForEvent_conflict [of st eventId userId env userName userEmail] second
    by simp
qed

theorem registerForEvent_twice_conflict_witness:
  "(\<exists>reg. fst (registerForEvent empty_store env0 ''e1'' ''u1'' ''Asha'' ''asha@nmamit.in'') = Inr reg) \<and>
   registerForEvent (snd (registerForEvent empty_store env0 ''e1'' ''u1'' ''Asha'' ''asha@nmamit.in''))
       env0 ''e1'' ''u1'' ''Asha K'' ''asha.k@nmamit.in'' =
     (Inl AlreadyRegistered,
      snd (registerForEvent empty_store env0 ''e1'' ''u1'' ''Asha'' ''asha@nmamit.in'')) \<and>
   registerForEvent store1 env0 ''e1'' ''u2'' ''Ravi'' ''ravi@nmamit.in'' =
     (Inl AlreadyRegistered, store1)"
proof -
  obtain reg st' where
    first: "registerForEvent empty_store env0 ''e1'' ''u1'' ''Asha'' ''asha@nmamit.in'' = (Inr reg, st')"
    by (simp add: registerForEvent_def getRegistrations_def find_first_def empty_store_def Let_def)
  have held: "\<exists>reg \<in> set (swiftattend_registrations store1).
      reg_event_id reg = ''e1'' \<and> reg_user_id reg = ''u2''"
    by (simp add: fixtures)
  from registerForEvent_twice_conflict
    [of empty_store "''e1''" "''u1''" env0 "''Asha''" "''asha@nmamit.in''" reg st' env0
      "''Asha K''" "''asha.k@nmamit.in''"] first
  have "registerForEvent st' env0 ''e1'' ''u1'' ''Asha K'' ''asha.k@nmamit.in'' =
      (Inl AlreadyRegistered, st')" by blast
  moreover from registerForEvent_twice_conflict
    [of store1 "''e1''" "''u2''" env0 "''Ravi''" "''ravi@nmamit.in''"] held
  have "registerForEvent store1 env0 ''e1'' ''u2'' ''Ravi'' ''ravi@nmamit.in'' =
      (Inl AlreadyRegistered, store1)" by blast
  ultimately show ?thesis using first by simp
qed

subsection \<open>Checking in by registration id\<close>

lemma checkInAttendee_not_found:
  "find_first (\<lambda>reg. reg_id reg = rid) (swiftattend_registrations st) = None \<Longrightarrow>
   checkInAttendee st env rid meth staffId = (Inl RegistrationNotFound, st)"
  by (simp add: checkInAttendee_def getRegistrations_def)

lemma checkInAttendee_checked:
  "find_first (\<lambda>reg. reg_id reg = rid) (swiftattend_registrations st) = Some r \<Longrightarrow>
   isAttendeeCheckedIn st rid \<Longrightarrow>
   checkInAttendee st env rid meth staffId = (Inl AlreadyCheckedIn, st)"
  by (simp add: checkInAttendee_def getRegistrations_def)

lemma checkInAttendee_ok:
  "find_first (\<lambda>reg. reg_id reg = rid) (swiftattend_registrations st) = Some r \<Longrightarrow>
   \<not> isAttendeeCheckedIn st rid \<Longrightarrow>
   checkInAttendee st env rid meth staffId =
     (Inr \<lparr> att_id = generateId env, att_registration_id = rid,
            att_event_id = reg_event_id r, att_user_id = reg_user_id r,
            att_checked_in_at = iso_now env, att_check_in_method = meth,
            att_staff_id = staffId \<rparr>,
      st\<lparr> swiftattend_attendances := swiftattend_attendances st @
           [\<lparr> att_id = generateId env, att_registration_id = rid,
              att_event_id = reg_event_id r, att_user_id = reg_user_id r,
              att_checked_in_at = iso_now env, att_check_in_method = meth,
              att_staff_id = staffId \<rparr>] \<rparr>)"
  by (simp add: checkInAttendee_def getRegistrations_def getAttendances_def Let_def)

lemma checkInAttendee_ok_ex:
  "find_first (\<lambda>reg. reg_id reg = rid) (swiftattend_registrations st) = Some r \<Longrightarrow>
   \<not> isAttendeeCheckedIn st rid \<Longrightarrow>
   \<exists>att. att_registration_id att = rid \<and>
     checkInAttendee st env rid meth staffId =
       (Inr att, st\<lparr> swiftattend_attendances := swiftattend_attendances st @ [att] \<rparr>)"
  by (simp add: checkInAttendee_ok)

lemma checkInAttendee_already:
  assumes ex: "\<exists>reg \<in> set (swiftattend_registrations st). reg_id reg = rid"
    and chk: "isAttendeeCheckedIn st rid"
  shows "checkInAttendee st env rid meth staffId = (Inl AlreadyCheckedIn, st)"
proof -
  from find_first_Some_ex [OF ex] obtain r where
    "find_first (\<lambda>reg. reg_id reg = rid) (swiftattend_registrations st) = Some r" by blast
  then show ?thesis using chk by (rule checkInAttendee_checked)
qed

lemma checkInAttendee_fails_unchanged:
  assumes chk: "isAttendeeCheckedIn st rid"
  shows "\<exists>e. checkInAttendee st env rid meth staffId = (Inl e, st)"
proof (cases "find_first (\<lambda>reg. reg_id reg = rid) (swiftattend_registrations st)")
  case None
  then show ?thesis by (simp add: checkInAttendee_not_found)
next
  case (Some r)
  then show ?thesis using chk by (simp add: checkInAttendee_checked)
qed

lemma isAttendeeCheckedIn_iff:
  "isAttendeeCheckedIn st rid \<longleftrightarrow> rid \<in> att_registration_id ` set (swiftattend_attendances st)"
  by (auto simp: isAttendeeCheckedIn_def getAttendances_def list_ex_iff)

lemma checkInAttendee_result:
  "snd (checkInAttendee st env rid meth staffId) = st \<or>
   (\<exists>att. att_registration_id att = rid \<and> \<not> isAttendeeCheckedIn st rid \<and>
      checkInAttendee st env rid meth staffId =
        (Inr att, st\<lparr> swiftattend_attendances := swiftattend_attendances st @ [att] \<rparr>))"
proof (cases "find_first (\<lambda>reg. reg_id reg = rid) (swiftattend_registrations st)")
  case None
  then show ?thesis by (simp add: checkInAttendee_not_found)
next
  case (Some r)
  show ?thesis
  proof (cases "isAttendeeCheckedIn st rid")
    case True
    with Some show ?thesis by (simp add: checkInAttendee_checked)
  next
    case False
    with Some show ?thesis by (simp add: checkInAttendee_ok)
  qed
qed

lemma checkInAttendee_unique:
  assumes u: "att_unique st"
  shows "att_unique (snd (checkInAttendee st env rid meth staffId))"
proof -
  from checkInAttendee_result [of st env rid meth staffId]
  show ?thesis
  proof
    assume "snd (checkInAttendee st env rid meth staffId) = st"
    with u show ?thesis by simp
  next
    assume "\<exists>att. att_registration_id att = rid \<and> \<not> isAttendeeCheckedIn st rid \<and>
      checkInAttendee st env rid meth staffId =
        (Inr att, st\<lparr> swiftattend_attendances := swiftattend_attendances st @ [att] \<rparr>)"
    then obtain att where a: "att_registration_id att = rid" "\<not> isAttendeeCheckedIn st rid"
      "checkInAttendee st env rid meth staffId =
        (Inr att, st\<lparr> swiftattend_attendances := swiftattend_attendances st @ [att] \<rparr>)"
      by blast
    with u show ?thesis by (simp add: att_unique_def isAttendeeCheckedIn_iff)
  qed
qed

subsection \<open>The branches of the scanner\<close>

lemma handleScan_guard:
  "selectedEventId = [] \<or> trim scanInput = [] \<Longrightarrow>
   handleScan up st env usr selectedEventId scanInput =
     (Failure ''Please select an event and enter QR code or backup code'', st)"
  by (simp add: handleScan_def)

lemma handleScan_invalid:
  "selectedEventId \<noteq> [] \<Longrightarrow> trim scanInput \<noteq> [] \<Longrightarrow>
   lookupRegistration up st (trim scanInput) = None \<Longrightarrow>
   handleScan up st env usr selectedEventId scanInput =
     (Failure ''Invalid QR code or backup code'', st)"
  by (simp add: handleScan_def)

lemma handleScan_wrong_event:
  "selectedEventId \<noteq> [] \<Longrightarrow> trim scanInput \<noteq> [] \<Longrightarrow>
   lookupRegistration up st (trim scanInput) = Some reg \<Longrightarrow>
   reg_event_id reg \<noteq> selectedEventId \<Longrightarrow>
   handleScan up st env usr selectedEventId scanInput =
     (Failure ''This registration is not for the selected event'', st)"
  by (simp add: handleScan_def)

lemma handleScan_already:
  "selectedEventId \<noteq> [] \<Longrightarrow> trim scanInput \<noteq> [] \<Longrightarrow>
   lookupRegistration up st (trim scanInput) = Some reg \<Longrightarrow>
   reg_event_id reg = selectedEventId \<Longrightarrow>
   isAttendeeCheckedIn st (reg_id reg) \<Longrightarrow>
   handleScan up st env usr selectedEventId scanInput =
     (Failure (reg_user_name reg @ '' is already checked in''), st)"
  by (simp add: handleScan_def)

lemma handleScan_check_in:
  "selectedEventId \<noteq> [] \<Longrightarrow> trim scanInput \<noteq> [] \<Longrightarrow>
   lookupRegistration up st (trim scanInput) = Some reg \<Longrightarrow>
   reg_event_id reg = selectedEventId \<Longrightarrow>
   \<not> isAttendeeCheckedIn st (reg_id reg) \<Longrightarrow>
   handleScan up st env usr selectedEventId scanInput =
     (case checkInAttendee st env (reg_id reg)
             (if length scanInput > 10 then qr_scan else backup_code) (usr_id usr) of
        (Inl e, st') \<Rightarrow> (Failure ''Failed to check in attendee'', st')
      | (Inr a, st') \<Rightarrow>
          (Succeeded (check_mark @ '' '' @ reg_user_name reg @ '' checked in successfully!''),
           st'))"
  by (simp add: handleScan_def)

lemma lookupRegistration_mem:
  assumes "lookupRegistration up st code = Some reg"
  shows "reg \<in> set (swiftattend_registrations st)"
proof (cases "findRegistrationByQR st code")
  case None
  with assms have "findRegistrationByBackupCode up st (toUpperCase up code) = Some reg"
    by (simp add: lookupRegistration_def)
  then show ?thesis
    unfolding findRegistrationByBackupCode_def getRegistrations_def
    by (rule find_first_SomeD [THEN conjunct1])
next
  case (Some r)
  with assms have "findRegistrationByQR st code = Some reg"
    by (simp add: lookupRegistration_def)
  then show ?thesis
    unfolding findRegistrationByQR_def getRegistrations_def
    by (rule find_first_SomeD [THEN conjunct1])
qed

lemma lookupRegistration_regs:
  assumes "swiftattend_registrations st' = swiftattend_registrations st"
  shows "lookupRegistration up st' code = lookupRegistration up st code"
proof -
  from assms have "findRegistrationByQR st' code = findRegistrationByQR st code"
    by (simp add: findRegistrationByQR_def getRegistrations_def)
  moreover from assms have "findRegistrationByBackupCode up st' (toUpperCase up code) =
      findRegistrationByBackupCode up st (toUpperCase up code)"
    by (simp add: findRegistrationByBackupCode_def getRegistrations_def)
  ultimately show ?thesis by (simp add: lookupRegistration_def cong: option.case_cong)
qed

text \<open>What a scan that reported success has done.\<close>

lemma handleScan_success:
  assumes ok: "handleScan up st env usr ev input = (Succeeded msg, st')"
  shows "ev \<noteq> [] \<and> trim input \<noteq> [] \<and>
    (\<exists>reg att. lookupRegistration up st (trim input) = Some reg \<and> reg_event_id reg = ev \<and>
       att_registration_id att = reg_id reg \<and>
       st' = st\<lparr> swiftattend_attendances := swiftattend_attendances st @ [att] \<rparr>)"
proof -
  have g: "ev \<noteq> [] \<and> trim input \<noteq> []"
  proof (rule ccontr)
    assume "\<not> (ev \<noteq> [] \<and> trim input \<noteq> [])"
    then have "ev = [] \<or> trim input = []" by blast
    from handleScan_guard [OF this, of up st env usr] ok show False by simp
  qed
  then have g1: "ev \<noteq> []" and g2: "trim input \<noteq> []" by simp_all
  obtain reg where l: "lookupRegistration up st (trim input) = Some reg"
  proof (cases "lookupRegistration up st (trim input)")
    case None
    from handleScan_invalid [OF g1 g2 None, of env usr] ok show ?thesis by simp
  next
    case (Some r)
    then show ?thesis by (rule that)
  qed
  have e: "reg_event_id reg = ev"
  proof (rule ccontr)
    assume "reg_event_id reg \<noteq> ev"
    from handleScan_wrong_event [OF g1 g2 l this, of env usr] ok show False by simp
  qed
  have n: "\<not> isAttendeeCheckedIn st (reg_id reg)"
  proof
    assume "isAttendeeCheckedIn st (reg_id reg)"
    from handleScan_already [OF g1 g2 l e this, of env usr] ok show False by simp
  qed
  let ?m = "if length input > 10 then qr_scan else backup_code"
  let ?c = "checkInAttendee st env (reg_id reg) ?m (usr_id usr)"
  from handleScan_check_in [OF g1 g2 l e n, of env usr] ok
  have c: "(case ?c of
        (Inl e, st') \<Rightarrow> (Failure ''Failed to check in attendee'', st')
      | (Inr a, st') \<Rightarrow>
          (Succeeded (check_mark @ '' '' @ reg_user_name reg @ '' checked in successfully!''),
           st')) = (Succeeded msg, st')" by simp
  from lookupRegistration_mem [OF l]
  have "\<exists>r \<in> set (swiftattend_registrations st). reg_id r = reg_id reg" by blast
  from find_first_Some_ex [OF this] obtain r where
    f: "find_first (\<lambda>x. reg_id x = reg_id reg) (swiftattend_registrations st) = Some r" by blast
  from checkInAttendee_ok_ex [OF f n, of env ?m "usr_id usr"] obtain att where
    a: "att_registration_id att = reg_id reg"
    "?c = (Inr att, st\<lparr> swiftattend_attendances := swiftattend_attendances st @ [att] \<rparr>)"
    by blast
  from c have "st' = st\<lparr> swiftattend_attendances := swiftattend_attendances st @ [att] \<rparr>"
    unfolding a(2) by simp
  with a(1) have "\<exists>att. att_registration_id att = reg_id reg \<and>
      st' = st\<lparr> swiftattend_attendances := swiftattend_attendances st @ [att] \<rparr>"
    by blast
  with g1 g2 l e show ?thesis by blast
qed

lemma handleScan_second:
  assumes "handleScan up st env usr ev input = (Succeeded msg, st')"
  shows "\<exists>reg. lookupRegistration up st (trim input) = Some reg \<and>
     handleScan up st' env' usr' ev input =
       (Failure (reg_user_name reg @ '' is already checked in''), st')"
proof -
  from handleScan_success [OF assms] obtain reg att where
    g: "ev \<noteq> []" "trim input \<noteq> []" and
    l: "lookupRegistration up st (trim input) = Some reg" and e: "reg_event_id reg = ev" and
    a: "att_registration_id att = reg_id reg" and
    s: "st' = st\<lparr> swiftattend_attendances := swiftattend_attendances st @ [att] \<rparr>"
    by blast
  from s have "swiftattend_registrations st' = swiftattend_registrations st" by simp
  then have "lookupRegistration up st' (trim input) = lookupRegistration up st (trim input)"
    by (rule lookupRegistration_regs)
  with l have l': "lookupRegistration up st' (trim input) = Some reg" by simp
  from s a have c: "isAttendeeCheckedIn st' (reg_id reg)"
    by (simp add: isAttendeeCheckedIn_iff)
  from g l' e c have "handleScan up st' env' usr' ev input =
      (Failure (reg_user_name reg @ '' is already checked in''), st')"
    by (rule handleScan_already)
  with l show ?thesis by blast
qed

lemma handleScan_store:
  "snd (handleScan up st env usr ev input) = st \<or>
   (\<exists>rid meth. snd (handleScan up st env usr ev input) =
      snd (checkInAttendee st env rid meth (usr_id usr)))"
proof (cases "ev = [] \<or> trim input = []")
  case True
  then show ?thesis by (simp add: handleScan_guard)
next
  case False
  then have g: "ev \<noteq> []" "trim input \<noteq> []" by simp_all
  show ?thesis
  proof (cases "lookupRegistration up st (trim input)")
    case None
    with g show ?thesis by (simp add: handleScan_invalid)
  next
    case (Some reg)
    show ?thesis
    proof (cases "reg_event_id reg = ev")
      case False
      with g Some show ?thesis by (simp add: handleScan_wrong_event)
    next
      case True
      show ?thesis
      proof (cases "isAttendeeCheckedIn st (reg_id reg)")
        case c: True
        from handleScan_already [OF g Some True c] show ?thesis by simp
      next
        case c: False
        let ?m = "if length input > 10 then qr_scan else backup_code"
        have "snd (handleScan up st env usr ev input) =
            snd (checkInAttendee st env (reg_id reg) ?m (usr_id usr))"
          unfolding handleScan_check_in [OF g Some True c]
          by (simp split: prod.splits sum.splits)
        then show ?thesis by blast
      qed
    qed
  qed
qed

lemma handleScan_unique:
  assumes u: "att_unique st"
  shows "att_unique (snd (handleScan up st env usr ev input))"
proof -
  from handleScan_store [of up st env usr ev input] show ?thesis
  proof
    assume "snd (handleScan up st env usr ev input) = st"
    with u show ?thesis by simp
  next
    assume "\<exists>rid meth. snd (handleScan up st env usr ev input) =
      snd (checkInAttendee st env rid meth (usr_id usr))"
    then obtain rid meth where "snd (handleScan up st env usr ev input) =
      snd (checkInAttendee st env rid meth (usr_id usr))" by blast
    with checkInAttendee_unique [OF u, of env rid meth "usr_id usr"] show ?thesis by simp
  qed
qed

subsection \<open>The invariant holds in every reachable store\<close>

lemma signIn_attendances:
  "swiftattend_attendances (snd (signIn st env email password role fullName studentId)) =
   swiftattend_attendances st"
  by (simp add: signIn_def Let_def)

lemma registerForEvent_attendances:
  "swiftattend_attendances (snd (registerForEvent st env eventId userId userName userEmail)) =
   swiftattend_attendances st"
  by (simp add: registerForEvent_def Let_def split: option.splits)

lemma deleteRegistration_attendances:
  "swiftattend_attendances (snd (deleteRegistration st rid)) = swiftattend_attendances st \<or>
   swiftattend_attendances (snd (deleteRegistration st rid)) =
     filter (\<lambda>att. att_registration_id att \<noteq> rid) (swiftattend_attendances st)"
  by (simp add: deleteRegistration_def getAttendances_def Let_def)

lemma deleteRegistration_unique:
  assumes u: "att_unique st"
  shows "att_unique (snd (deleteRegistration st rid))"
  using deleteRegistration_attendances [of st rid] u
  by (auto simp: att_unique_def distinct_map_filter)

lemma reachable_unique: "reachable st \<Longrightarrow> att_unique st"
proof (induction rule: reachable.induct)
  case init
  show ?case by (simp add: att_unique_def empty_store_def)
next
  case (sign_in st env email password role fullName studentId)
  then show ?case by (simp add: att_unique_def signIn_attendances)
next
  case (sign_out st)
  then show ?case by (simp add: att_unique_def signOut_def)
next
  case (create_event st env eventData)
  then show ?case by (simp add: att_unique_def createEvent_def Let_def)
next
  case (register st env eventId userId userName userEmail)
  then show ?case by (simp add: att_unique_def registerForEvent_attendances)
next
  case (delete st registrationId)
  then show ?case by (simp add: deleteRegistration_unique)
next
  case (check_in st env registrationId meth staffId)
  then show ?case by (simp add: checkInAttendee_unique)
next
  case (scan st up env usr selectedEventId scanInput)
  then show ?case by (simp add: handleScan_unique)
next
  case (clear st)
  show ?case by (simp add: att_unique_def clearAllData_def)
qed

lemma distinct_count_le1:
  "distinct (map f xs) \<Longrightarrow> length (filter (\<lambda>x. f x = k) xs) \<le> 1"
  by (induction xs) (auto simp: filter_empty_conv image_iff)

text \<open>
  C1. In every store that the operations produce from the empty store, each registration
  id has at most one attendance record. When a registration has an attendance record,
  \<^verbatim>\<open>checkInAttendee\<close> on its id throws and leaves the store as it is; the error is
  \<^verbatim>\<open>Already checked in\<close> when the registration exists. A scan whose code resolves to such
  a registration of the selected event reports that the attendee, by name, is already checked
  in and leaves the store as it is; in particular this is what a scan answers when it is
  repeated after it succeeded.
\<close>

theorem attendance_at_most_once:
  "(reachable st \<longrightarrow>
      (\<forall>rid. length (filter (\<lambda>att. att_registration_id att = rid)
                 (swiftattend_attendances st)) \<le> 1)) \<and>
   (isAttendeeCheckedIn st rid \<longrightarrow>
      (\<exists>e. checkInAttendee st env rid meth staffId = (Inl e, st))) \<and>
   ((\<exists>r \<in> set (swiftattend_registrations st). reg_id r = rid) \<and> isAttendeeCheckedIn st rid \<longrightarrow>
      checkInAttendee st env rid meth staffId = (Inl AlreadyCheckedIn, st)) \<and>
   message AlreadyCheckedIn = ''Already checked in'' \<and>
   (selectedEventId \<noteq> [] \<and> trim scanInput \<noteq> [] \<and>
    lookupRegistration up st (trim scanInput) = Some reg \<and> reg_event_id reg = selectedEventId \<and>
    isAttendeeCheckedIn st (reg_id reg) \<longrightarrow>
      handleScan up st env usr selectedEventId scanInput =
        (Failure (reg_user_name reg @ '' is already checked in''), st)) \<and>
   (handleScan up st env usr selectedEventId scanInput = (Succeeded msg, st') \<longrightarrow>
      (\<exists>r. lookupRegistration up st (trim scanInput) = Some r \<and>
         handleScan up st' env' usr' selectedEventId scanInput =
           (Failure (reg_user_name r @ '' is already checked in''), st')))"
proof -
  have inv: "reachable st \<longrightarrow> (\<forall>rid. length (filter (\<lambda>att. att_registration_id att = rid)
      (swiftattend_attendances st)) \<le> 1)"
  proof
    assume "reachable st"
    then have "distinct (map att_registration_id (swiftattend_attendances st))"
      using reachable_unique [of st] by (simp add: att_unique_def)
    then show "\<forall>rid. length (filter (\<lambda>att. att_registration_id att = rid)
      (swiftattend_attendances st)) \<le> 1"
      using distinct_count_le1 [of att_registration_id "swiftattend_attendances st"] by simp
  qed
  have a: "isAttendeeCheckedIn st rid \<longrightarrow>
      (\<exists>e. checkInAttendee st env rid meth staffId = (Inl e, st))"
    using checkInAttendee_fails_unchanged [of st rid env meth staffId] by blast
  have b: "(\<exists>r \<in> set (swiftattend_registrations st). reg_id r = rid) \<and>
      isAttendeeCheckedIn st rid \<longrightarrow>
      checkInAttendee st env rid meth staffId = (Inl AlreadyCheckedIn, st)"
    using checkInAttendee_already [of st rid env meth staffId] by blast
  have c: "selectedEventId \<noteq> [] \<and> trim scanInput \<noteq> [] \<and>
    lookupRegistration up st (trim scanInput) = Some reg \<and> reg_event_id reg = selectedEventId \<and>
    isAttendeeCheckedIn st (reg_id reg) \<longrightarrow>
      handleScan up st env usr selectedEventId scanInput =
        (Failure (reg_user_name reg @ '' is already checked in''), st)"
    using handleScan_already [of selectedEventId scanInput up st reg env usr] by blast
  have d: "handleScan up st env usr selectedEventId scanInput = (Succeeded msg, st') \<longrightarrow>
      (\<exists>r. lookupRegistration up st (trim scanInput) = Some r \<and>
         handleScan up st' env' usr' selectedEventId scanInput =
           (Failure (reg_user_name r @ '' is already checked in''), st'))"
    using handleScan_second [of up st env usr selectedEventId scanInput msg st' env' usr'] by blast
  from inv a b c d show ?thesis by simp
qed

lemmas lookup_defs = lookupRegistration_def findRegistrationByQR_def
  findRegistrationByBackupCode_def getRegistrations_def find_first_def
  toUpperCase_def is_ascii_def toUpperChar_def lowerChars_def upperChars_def trim_def
  isWhiteSpace_def

lemma run_register:
  "registerForEvent empty_store env0 ''e1'' ''u1'' ''Asha'' ''asha@nmamit.in'' = (Inr reg0, store_a)"
  by (simp add: registerForEvent_def getRegistrations_def find_first_def empty_store_def Let_def
      generateId_def generateQRCodeData_def generateBackupCode_def backupChars_def charAt_def
      substr_def env0_def reg0_def store_a_def)

lemma run_scan:
  "handleScan up0 store_a env0 staff0 ''e1'' ''ssssssss'' =
     (Succeeded (check_mark @ '' Asha checked in successfully!''), store_b)"
  by (simp add: handleScan_def lookup_defs isAttendeeCheckedIn_def getAttendances_def
      checkInAttendee_def generateId_def substr_def Let_def
      env0_def staff0_def reg0_def att0_def store_a_def store_b_def)

lemma reachable_store_b: "reachable store_b"
proof -
  have "reachable (snd (registerForEvent empty_store env0 ''e1'' ''u1'' ''Asha'' ''asha@nmamit.in''))"
    by (rule reachable.register [OF reachable.init])
  then have "reachable store_a" by (simp add: run_register)
  then have "reachable (snd (handleScan up0 store_a env0 staff0 ''e1'' ''ssssssss''))"
    by (rule reachable.scan)
  then show ?thesis by (simp add: run_scan)
qed

theorem attendance_at_most_once_witness:
  "reachable store_b \<and>
   length (filter (\<lambda>att. att_registration_id att = reg_id reg0)
     (swiftattend_attendances store_b)) \<le> 1 \<and>
   isAttendeeCheckedIn store_b (reg_id reg0) \<and>
   checkInAttendee store_b env0 (reg_id reg0) qr_scan ''s9'' = (Inl AlreadyCheckedIn, store_b) \<and>
   handleScan up0 store_a env0 staff0 ''e1'' ''ssssssss'' =
     (Succeeded (check_mark @ '' Asha checked in successfully!''), store_b) \<and>
   handleScan up0 store_b env0 staff0 ''e1'' ''ssssssss'' =
     (Failure ''Asha is already checked in'', store_b)"
proof -
  have chk: "isAttendeeCheckedIn store_b (reg_id reg0)"
    by (simp add: isAttendeeCheckedIn_def getAttendances_def store_b_def reg0_def att0_def)
  have ex: "\<exists>r \<in> set (swiftattend_registrations store_b). reg_id r = reg_id reg0"
    by (simp add: store_b_def)
  have tr: "trim ''ssssssss'' \<noteq> []"
    by (simp add: trim_def isWhiteSpace_def)
  have lk: "lookupRegistration up0 store_b (trim ''ssssssss'') = Some reg0"
    by (simp add: lookup_defs store_b_def reg0_def)
  have ev: "reg_event_id reg0 = ''e1''" "reg_user_name reg0 = ''Asha''"
    by (simp_all add: reg0_def)
  note inst = attendance_at_most_once
    [of store_b "reg_id reg0" env0 qr_scan "''s9''" "''e1''" "''ssssssss''" up0 reg0 staff0]
  from inst reachable_store_b
  have one: "length (filter (\<lambda>att. att_registration_id att = reg_id reg0)
     (swiftattend_attendances store_b)) \<le> 1" by blast
  from inst ex chk
  have again: "checkInAttendee store_b env0 (reg_id reg0) qr_scan ''s9'' =
      (Inl AlreadyCheckedIn, store_b)" by blast
  from inst tr lk ev chk
  have scan: "handleScan up0 store_b env0 staff0 ''e1'' ''ssssssss'' =
     (Failure ''Asha is already checked in'', store_b)" by simp
  from reachable_store_b one chk again run_scan scan show ?thesis by simp
qed

subsection \<open>Resolving a code\<close>

lemma toUpperChar_ascii: "\<not> digit7 c \<Longrightarrow> \<not> digit7 (toUpperChar c)"
  by (simp add: toUpperChar_def lowerChars_def upperChars_def)

lemma toUpperChar_idem: "toUpperChar (toUpperChar c) = toUpperChar c"
  by (simp add: toUpperChar_def lowerChars_def upperChars_def)

lemma toUpperCase_ascii:
  assumes "is_ascii s"
  shows "toUpperCase up s = map toUpperChar s" and "is_ascii (toUpperCase up s)"
    and "toUpperCase up (toUpperCase up s) = map toUpperChar s"
proof -
  show one: "toUpperCase up s = map toUpperChar s"
    using assms by (simp add: toUpperCase_def)
  from assms show two: "is_ascii (toUpperCase up s)"
    unfolding one by (simp add: is_ascii_def list_all_iff toUpperChar_ascii)
  from two have "toUpperCase up (toUpperCase up s) = map toUpperChar (toUpperCase up s)"
    by (simp add: toUpperCase_def)
  then show "toUpperCase up (toUpperCase up s) = map toUpperChar s"
    unfolding one by (simp add: toUpperChar_idem)
qed

lemma lookupRegistration_find:
  "lookupRegistration up st code =
     (case List.find (\<lambda>reg. reg_qr_code_data reg = code) (swiftattend_registrations st) of
        Some q \<Rightarrow> Some q
      | None \<Rightarrow>
          List.find (\<lambda>reg. reg_backup_code reg = toUpperCase up (toUpperCase up code))
            (swiftattend_registrations st))"
  by (simp add: lookupRegistration_def findRegistrationByQR_def findRegistrationByBackupCode_def
      getRegistrations_def find_first_def split: option.splits)

lemma handleScan_resolved:
  "selectedEventId \<noteq> [] \<Longrightarrow> trim scanInput \<noteq> [] \<Longrightarrow>
   lookupRegistration up st (trim scanInput) = Some r \<Longrightarrow>
   handleScan up st env usr selectedEventId scanInput =
     (if reg_event_id r \<noteq> selectedEventId then
        (Failure ''This registration is not for the selected event'', st)
      else if isAttendeeCheckedIn st (reg_id r) then
        (Failure (reg_user_name r @ '' is already checked in''), st)
      else
        (case checkInAttendee st env (reg_id r)
                (if length scanInput > 10 then qr_scan else backup_code) (usr_id usr) of
           (Inl e, st') \<Rightarrow> (Failure ''Failed to check in attendee'', st')
         | (Inr a, st') \<Rightarrow>
             (Succeeded (check_mark @ '' '' @ reg_user_name r @ '' checked in successfully!''),
              st')))"
  by (simp add: handleScan_def)

lemma resolved_None:
  "(case List.find P xs of Some q \<Rightarrow> Some q | None \<Rightarrow> List.find Q xs) = None \<longleftrightarrow>
   (\<forall>x \<in> set xs. \<not> P x \<and> \<not> Q x)"
proof (cases "List.find P xs")
  case None
  have e: "(case List.find P xs of Some q \<Rightarrow> Some q | None \<Rightarrow> List.find Q xs) = List.find Q xs"
    by (simp add: None)
  from None have p: "\<forall>x \<in> set xs. \<not> P x" by (simp add: find_None_iff)
  show ?thesis unfolding e using p by (auto simp: find_None_iff)
next
  case (Some a)
  then have "a \<in> set xs \<and> P a" by (auto simp: find_Some_iff)
  with Some show ?thesis by auto
qed

text \<open>
  C3, as the code has it. A scan with no event selected, or with a code that is blank once
  it is trimmed, is answered by the request to select an event and enter a code, and nothing
  is looked up. Otherwise the scan resolves the trimmed code to the first registration whose QR
  payload equals it and, only if there is none, to the first registration whose backup code
  equals the code converted to upper case (the conversion is applied twice, once by the page and
  once by the lookup; for an ASCII code the result is the code with its letters in upper case),
  so that codes with the same upper-case form find the same registration. If neither lookup
  finds a registration, the scan fails with \<^verbatim>\<open>Invalid QR code or backup code\<close>, and the
  store, with it the attendance list, is unchanged. If one does, the scan goes on with that
  registration and no other: the event test, the test for an earlier check-in, the check-in.
\<close>

theorem handleScan_lookup_order:
  fixes up st env usr selectedEventId scanInput other r
  defines "code \<equiv> trim scanInput"
    and "regs \<equiv> swiftattend_registrations st"
  defines "byQR \<equiv> List.find (\<lambda>reg. reg_qr_code_data reg = code) regs"
    and "byBackup \<equiv>
      List.find (\<lambda>reg. reg_backup_code reg = toUpperCase up (toUpperCase up code)) regs"
  defines "resolved \<equiv> (case byQR of Some q \<Rightarrow> Some q | None \<Rightarrow> byBackup)"
  shows
   "(selectedEventId = [] \<or> code = [] \<longrightarrow>
       handleScan up st env usr selectedEventId scanInput =
         (Failure ''Please select an event and enter QR code or backup code'', st)) \<and>
    (selectedEventId \<noteq> [] \<and> code \<noteq> [] \<and> resolved = None \<longrightarrow>
       handleScan up st env usr selectedEventId scanInput =
         (Failure ''Invalid QR code or backup code'', st)) \<and>
    (selectedEventId \<noteq> [] \<and> code \<noteq> [] \<and> resolved = Some r \<longrightarrow>
       handleScan up st env usr selectedEventId scanInput =
         (if reg_event_id r \<noteq> selectedEventId then
            (Failure ''This registration is not for the selected event'', st)
          else if isAttendeeCheckedIn st (reg_id r) then
            (Failure (reg_user_name r @ '' is already checked in''), st)
          else
            (case checkInAttendee st env (reg_id r)
                    (if length scanInput > 10 then qr_scan else backup_code) (usr_id usr) of
               (Inl e, st') \<Rightarrow> (Failure ''Failed to check in attendee'', st')
             | (Inr a, st') \<Rightarrow>
                 (Succeeded (check_mark @ '' '' @ reg_user_name r
                    @ '' checked in successfully!''), st')))) \<and>
    (resolved = None \<longleftrightarrow>
       (\<forall>reg \<in> set regs. reg_qr_code_data reg \<noteq> code \<and>
          reg_backup_code reg \<noteq> toUpperCase up (toUpperCase up code))) \<and>
    (is_ascii code \<longrightarrow> toUpperCase up (toUpperCase up code) = map toUpperChar code) \<and>
    (toUpperCase up other = toUpperCase up code \<longrightarrow>
       List.find (\<lambda>reg. reg_backup_code reg = toUpperCase up (toUpperCase up other)) regs =
         byBackup)"
proof -
  have lk: "lookupRegistration up st (trim scanInput) = resolved"
    unfolding resolved_def byQR_def byBackup_def code_def regs_def
    by (rule lookupRegistration_find)
  have g: "selectedEventId = [] \<or> code = [] \<longrightarrow>
       handleScan up st env usr selectedEventId scanInput =
         (Failure ''Please select an event and enter QR code or backup code'', st)"
    unfolding code_def using handleScan_guard [of selectedEventId scanInput up st env usr]
    by blast
  have n: "selectedEventId \<noteq> [] \<and> code \<noteq> [] \<and> resolved = None \<longrightarrow>
       handleScan up st env usr selectedEventId scanInput =
         (Failure ''Invalid QR code or backup code'', st)"
    unfolding code_def
    using handleScan_invalid [of selectedEventId scanInput up st env usr] lk by simp
  have c: "selectedEventId \<noteq> [] \<and> code \<noteq> [] \<and> resolved = Some r \<longrightarrow>
       handleScan up st env usr selectedEventId scanInput =
         (if reg_event_id r \<noteq> selectedEventId then
            (Failure ''This registration is not for the selected event'', st)
          else if isAttendeeCheckedIn st (reg_id r) then
            (Failure (reg_user_name r @ '' is already checked in''), st)
          else
            (case checkInAttendee st env (reg_id r)
                    (if length scanInput > 10 then qr_scan else backup_code) (usr_id usr) of
               (Inl e, st') \<Rightarrow> (Failure ''Failed to check in attendee'', st')
             | (Inr a, st') \<Rightarrow>
                 (Succeeded (check_mark @ '' '' @ reg_user_name r
                    @ '' checked in successfully!''), st')))"
  proof
    assume h: "selectedEventId \<noteq> [] \<and> code \<noteq> [] \<and> resolved = Some r"
    then have "selectedEventId \<noteq> []" "trim scanInput \<noteq> []"
      "lookupRegistration up st (trim scanInput) = Some r"
      by (simp_all add: code_def lk)
    then show "handleScan up st env usr selectedEventId scanInput =
         (if reg_event_id r \<noteq> selectedEventId then
            (Failure ''This registration is not for the selected event'', st)
          else if isAttendeeCheckedIn st (reg_id r) then
            (Failure (reg_user_name r @ '' is already checked in''), st)
          else
            (case checkInAttendee st env (reg_id r)
                    (if length scanInput > 10 then qr_scan else backup_code) (usr_id usr) of
               (Inl e, st') \<Rightarrow> (Failure ''Failed to check in attendee'', st')
             | (Inr a, st') \<Rightarrow>
                 (Succeeded (check_mark @ '' '' @ reg_user_name r
                    @ '' checked in successfully!''), st')))"
      by (rule handleScan_resolved)
  qed
  have m: "resolved = None \<longleftrightarrow>
       (\<forall>reg \<in> set regs. reg_qr_code_data reg \<noteq> code \<and>
          reg_backup_code reg \<noteq> toUpperCase up (toUpperCase up code))"
    unfolding resolved_def byQR_def byBackup_def by (rule resolved_None)
  have a: "is_ascii code \<longrightarrow> toUpperCase up (toUpperCase up code) = map toUpperChar code"
    using toUpperCase_ascii(3) [of code up] by blast
  have i: "toUpperCase up other = toUpperCase up code \<longrightarrow>
       List.find (\<lambda>reg. reg_backup_code reg = toUpperCase up (toUpperCase up other)) regs =
         byBackup"
    by (simp add: byBackup_def)
  from g n c m a i show ?thesis by blast
qed

text \<open>In \<open>store3\<close> the text \<^verbatim>\<open>ZZ99YY88\<close> is the backup code of the second registration, of
  event \<open>e1\<close>, and the QR payload of the third, of event \<open>e2\<close>. Scanned for event \<open>e1\<close> it
  is resolved by QR payload, to the third, and rejected as of another event. The backup code
  of the first registration, typed in lower case between spaces, resolves to it.\<close>

theorem handleScan_lookup_order_witness:
  "handleScan up0 store3 env0 staff0 ''e1'' ''   '' =
     (Failure ''Please select an event and enter QR code or backup code'', store3) \<and>
   handleScan up0 store3 env0 staff0 ''e1'' ''ZZ99YY88'' =
     (Failure ''This registration is not for the selected event'', store3) \<and>
   handleScan up0 store3 env0 staff0 ''e1'' '' ab12cd34 '' =
     (Failure ''Asha is already checked in'', store3) \<and>
   handleScan up0 store3 env0 staff0 ''e1'' ''NOPE0000'' =
     (Failure ''Invalid QR code or backup code'', store3) \<and>
   toUpperCase up0 (toUpperCase up0 (trim '' ab12cd34 '')) = ''AB12CD34''"
proof -
  have t: "trim ''   '' = []" "trim '' ab12cd34 '' = ''ab12cd34''"
    "trim ''NOPE0000'' = ''NOPE0000''" "trim ''ZZ99YY88'' = ''ZZ99YY88''"
    by (simp_all add: trim_def isWhiteSpace_def)
  have u: "toUpperCase up0 (toUpperCase up0 ''ab12cd34'') = ''AB12CD34''"
    "toUpperCase up0 (toUpperCase up0 ''NOPE0000'') = ''NOPE0000''"
    "toUpperCase up0 (toUpperCase up0 ''ZZ99YY88'') = ''ZZ99YY88''"
    by (simp_all add: toUpperCase_def is_ascii_def toUpperChar_def lowerChars_def upperChars_def)
  have regs: "swiftattend_registrations store3 = [reg1, reg2, reg3]"
    by (simp add: store3_def)
  have chk: "isAttendeeCheckedIn store3 (reg_id reg1)"
    by (simp add: isAttendeeCheckedIn_def getAttendances_def store3_def reg1_def att1_def)
  from handleScan_lookup_order [of "''e1''" "''   ''" up0 store3 env0 staff0] t
  have a: "handleScan up0 store3 env0 staff0 ''e1'' ''   '' =
     (Failure ''Please select an event and enter QR code or backup code'', store3)" by simp
  from handleScan_lookup_order [of "''e1''" "''ZZ99YY88''" up0 store3 env0 staff0 reg3]
  have b: "handleScan up0 store3 env0 staff0 ''e1'' ''ZZ99YY88'' =
     (Failure ''This registration is not for the selected event'', store3)"
    by (simp add: t u regs reg1_def reg2_def reg3_def)
  from handleScan_lookup_order [of "''e1''" "'' ab12cd34 ''" up0 store3 env0 staff0 reg1] chk
  have c: "handleScan up0 store3 env0 staff0 ''e1'' '' ab12cd34 '' =
     (Failure (reg_user_name reg1 @ '' is already checked in''), store3)"
    by (simp add: t u regs reg1_def reg2_def reg3_def)
  from handleScan_lookup_order [of "''e1''" "''NOPE0000''" up0 store3 env0 staff0]
  have d: "handleScan up0 store3 env0 staff0 ''e1'' ''NOPE0000'' =
     (Failure ''Invalid QR code or backup code'', store3)"
    by (simp add: t u regs reg1_def reg2_def reg3_def)
  from a b c d u(1) t(2) show ?thesis by (simp add: reg1_def)
qed

text \<open>
  The claim as the specification words it, for every input code, fails for a code of three
  spaces typed while event \<open>e1\<close> is selected: no registration has it, trimmed or not, as QR
  payload or as backup code, and yet the answer is not the invalid-code error.
\<close>

theorem handleScan_blank_code_counterexample:
  "findRegistrationByQR store1 ''   '' = None \<and>
   findRegistrationByBackupCode up0 store1 ''   '' = None \<and>
   lookupRegistration up0 store1 (trim ''   '') = None \<and>
   fst (handleScan up0 store1 env0 staff0 ''e1'' ''   '') \<noteq>
     Failure ''Invalid QR code or backup code'' \<and>
   handleScan up0 store1 env0 staff0 ''e1'' ''   '' =
     (Failure ''Please select an event and enter QR code or backup code'', store1)"
  by (simp add: handleScan_def lookup_defs store1_def reg1_def reg2_def)

subsection \<open>The wrong event\<close>

text \<open>
  C4. When an event is selected and the typed code, trimmed, is not blank and resolves to a
  registration of another event, the scan fails with
  \<^verbatim>\<open>This registration is not for the selected event\<close> and the store, and with it the
  attendance list, is unchanged. The scanner component of the hosted variant answers a row of
  another event than the one it was given with \<^verbatim>\<open>This code is not for the current event\<close>
  and inserts no attendance row.
\<close>

theorem handleScan_wrong_event_rejected:
  "(selectedEventId \<noteq> [] \<and> trim scanInput \<noteq> [] \<and>
    lookupRegistration up st (trim scanInput) = Some reg \<and>
    reg_event_id reg \<noteq> selectedEventId \<longrightarrow>
      handleScan up st env usr selectedEventId scanInput =
        (Failure ''This registration is not for the selected event'', st)) \<and>
   (truthy eventId \<and> row_event_id row \<noteq> the eventId \<longrightarrow>
      processCheckIn eventId (Some row) insertFails =
        (Failure ''This code is not for the current event'', None))"
  using handleScan_wrong_event [of selectedEventId scanInput up st reg env usr]
  by (simp add: processCheckIn_def)

theorem handleScan_wrong_event_rejected_witness:
  "lookupRegistration up0 store1 (trim ''ab12cd34'') = Some reg1 \<and> reg_event_id reg1 \<noteq> ''e2'' \<and>
   handleScan up0 store1 env0 staff0 ''e2'' ''ab12cd34'' =
     (Failure ''This registration is not for the selected event'', store1) \<and>
   processCheckIn (Some ''e2'')
     (Some \<lparr> row_id = ''r1'', row_event_id = ''e1'', row_user_full_name = ''Asha'',
             row_attendance_count = 0 \<rparr>) False =
     (Failure ''This code is not for the current event'', None)"
proof -
  have tr: "trim ''ab12cd34'' \<noteq> []"
    by (simp add: trim_def isWhiteSpace_def)
  have lk: "lookupRegistration up0 store1 (trim ''ab12cd34'') = Some reg1"
    by (simp add: lookup_defs store1_def reg1_def reg2_def)
  have ev: "reg_event_id reg1 \<noteq> ''e2''"
    by (simp add: reg1_def)
  from handleScan_wrong_event_rejected
    [of "''e2''" "''ab12cd34''" up0 store1 reg1 env0 staff0 "Some ''e2''"
      "\<lparr> row_id = ''r1'', row_event_id = ''e1'', row_user_full_name = ''Asha'',
         row_attendance_count = 0 \<rparr>" False] tr lk ev
  show ?thesis by simp
qed

subsection \<open>Backup codes\<close>

lemma random_index:
  assumes "0 \<le> r" and "r < 1"
  shows "nat \<lfloor>r * real (length backupChars)\<rfloor> < length backupChars"
proof -
  have len: "length backupChars = 36" by (simp add: backupChars_def)
  from assms have "r * 36 < 36" by simp
  then have "\<lfloor>r * 36\<rfloor> < 36" by (simp add: floor_less_iff)
  moreover from assms have "0 \<le> \<lfloor>r * 36\<rfloor>" by simp
  ultimately have "nat \<lfloor>r * 36\<rfloor> < 36" by linarith
  then show ?thesis by (simp add: len)
qed

lemma charAt_in_range:
  "i < length s \<Longrightarrow> length (charAt s i) = 1 \<and> set (charAt s i) \<subseteq> set s"
  by (simp add: charAt_def)

declare generateBackupCode_loop.simps [simp del]

lemma generateBackupCode_loop_format:
  "i \<le> 8 \<Longrightarrow> (\<forall>j. i \<le> j \<and> j < 8 \<longrightarrow> 0 \<le> rnd j \<and> rnd j < 1) \<Longrightarrow>
   length (generateBackupCode_loop rnd i result) = length result + (8 - i) \<and>
   set (generateBackupCode_loop rnd i result) \<subseteq> set result \<union> set backupChars"
proof (induction rnd i result rule: generateBackupCode_loop.induct)
  case (1 rnd i result)
  show ?case
  proof (cases "i < 8")
    case True
    let ?c = "charAt backupChars (nat \<lfloor>rnd i * real (length backupChars)\<rfloor>)"
    from True "1.prems" have r: "0 \<le> rnd i" "rnd i < 1" by simp_all
    from charAt_in_range [OF random_index [OF r]]
    have c: "length ?c = 1" "set ?c \<subseteq> set backupChars" by simp_all
    have step: "generateBackupCode_loop rnd i result =
        generateBackupCode_loop rnd (i + 1) (result @ ?c)"
      using True by (subst generateBackupCode_loop.simps) simp
    from True "1.prems" have
      "length (generateBackupCode_loop rnd (i + 1) (result @ ?c)) =
         length (result @ ?c) + (8 - (i + 1)) \<and>
       set (generateBackupCode_loop rnd (i + 1) (result @ ?c)) \<subseteq>
         set (result @ ?c) \<union> set backupChars"
      by (intro "1.IH") simp_all
    with True c show ?thesis
      unfolding step by auto
  next
    case False
    with "1.prems" have "i = 8" by simp
    then have "generateBackupCode_loop rnd i result = result"
      by (subst generateBackupCode_loop.simps) simp
    with \<open>i = 8\<close> show ?thesis by simp
  qed
qed

text \<open>The local variant: when the random numbers lie in the unit interval, as the host
  language promises, the backup code has exactly eight characters, each an upper-case letter
  or a digit.\<close>

lemma generateBackupCode_format:
  assumes "\<forall>i < 8. 0 \<le> randoms env i \<and> randoms env i < 1"
  shows "length (generateBackupCode env) = 8 \<and>
     set (generateBackupCode env) \<subseteq> set upperChars \<union> set digitChars"
proof -
  from assms have "\<forall>j. 0 \<le> j \<and> j < 8 \<longrightarrow> 0 \<le> randoms env j \<and> randoms env j < 1" by simp
  from generateBackupCode_loop_format [OF _ this, of "[]"]
  have "length (generateBackupCode env) = 8 \<and>
     set (generateBackupCode env) \<subseteq> set backupChars"
    by (simp add: generateBackupCode_def)
  moreover have split: "backupChars = upperChars @ digitChars"
    by (simp add: backupChars_def upperChars_def digitChars_def)
  have "set backupChars = set upperChars \<union> set digitChars"
    unfolding split by (rule set_append)
  ultimately show ?thesis by (simp only:)
qed

lemma registerForEvent_backup_code:
  assumes "\<forall>i < 8. 0 \<le> randoms env i \<and> randoms env i < 1"
    and "registerForEvent st env eventId userId userName userEmail = (Inr reg, st')"
  shows "length (reg_backup_code reg) = 8 \<and>
     set (reg_backup_code reg) \<subseteq> set upperChars \<union> set digitChars"
proof -
  from assms(2) have "reg_backup_code reg = generateBackupCode env"
    by (auto simp: registerForEvent_def Let_def split: option.splits)
  with generateBackupCode_format [OF assms(1)] show ?thesis by simp
qed

text \<open>
  C8. The hosted variant takes the characters of the base-36 rendering of one random number
  that follow \<^verbatim>\<open>0.\<close>, at most eight of them. The random number one half is rendered
  \<^verbatim>\<open>0.i\<close>, and the backup code computed from it is the single character \<^verbatim>\<open>I\<close>.
\<close>

theorem supabase_backup_code_short:
  "supabase_backup_code up ''0.i'' = ''I'' \<and> length (supabase_backup_code up ''0.i'') = 1"
  by (simp add: supabase_backup_code_def substr_def toUpperCase_def is_ascii_def toUpperChar_def
      lowerChars_def upperChars_def)

subsection \<open>The order of the event list\<close>

lemma parseDate_jan: "parseDate ''2025-01-01'' = Some 1735689600000"
  by (simp add: parseDate_def digit_val_def digitChars_def days_in_month_def is_leap_year_def
      days_from_civil_def MS_PER_DAY_def)

lemma parseDate_feb: "parseDate ''2025-02-01'' = Some 1738368000000"
  by (simp add: parseDate_def digit_val_def digitChars_def days_in_month_def is_leap_year_def
      days_from_civil_def MS_PER_DAY_def)

lemma parseDate_mar: "parseDate ''2025-03-15'' = Some (20162 * MS_PER_DAY)"
  by (simp add: parseDate_def digit_val_def digitChars_def days_in_month_def is_leap_year_def
      days_from_civil_def MS_PER_DAY_def)

text \<open>
  C7. The local variant returns the events in the order in which they were created: an
  event dated 2025-02-01 that was created before an event dated 2025-01-01 is listed before
  it.
\<close>

theorem getEvents_creation_order:
  "map ev_event_date
     (getEvents (snd (createEvent (snd (createEvent empty_store env0 event_feb)) env1 event_jan))) =
     [''2025-02-01'', ''2025-01-01''] \<and>
   parseDate ''2025-02-01'' = Some 1738368000000 \<and>
   parseDate ''2025-01-01'' = Some 1735689600000"
  by (simp add: parseDate_jan parseDate_feb getEvents_def createEvent_def empty_store_def
      event_feb_def event_jan_def Let_def)

subsection \<open>The participant listing\<close>

text \<open>In a time zone at or east of UTC, by less than a day, the listing keeps exactly the
  stored events whose date is the local calendar day or a later day.\<close>

lemma upcomingEvents_east_of_utc:
  assumes tz: "0 \<le> tz_offset_min clock" "tz_offset_min clock < 1440"
    and d: "parseDate (ev_event_date event) = Some (day * MS_PER_DAY)"
  shows "event \<in> set (upcomingEvents st clock) \<longleftrightarrow>
     event \<in> set (getEvents st) \<and> localToday clock \<le> day"
proof -
  define off where "off = tz_offset_min clock * 60000"
  define today where "today = (now_ms clock + off) div 86400000"
  from tz have o: "0 \<le> off" "off < 86400000" by (simp_all add: off_def)
  have "day * 86400000 \<ge> today * 86400000 - off \<longleftrightarrow> today \<le> day"
    using o by auto
  then show ?thesis
    by (simp add: upcomingEvents_def d startOfToday_def localToday_def MS_PER_DAY_def
        MS_PER_MINUTE_def Let_def off_def today_def)
qed

text \<open>
  C6. In a browser five hours west of UTC, at noon of 2025-03-15, the listing of a store
  that holds one event dated 2025-03-15 is empty: the event of the day is left out. (Five and
  a half hours east of UTC, at the same instant, it is listed.)
\<close>

theorem upcomingEvents_today_west_of_utc:
  "ev_event_date event_today = ''2025-03-15'' \<and>
   parseDate ''2025-03-15'' = Some (20162 * MS_PER_DAY) \<and>
   localToday clock_west = 20162 \<and>
   upcomingEvents store_ev clock_west = [] \<and>
   upcomingEvents store_ev clock_east = [event_today]"
  by (simp add: parseDate_mar upcomingEvents_def getEvents_def startOfToday_def localToday_def
      MS_PER_DAY_def MS_PER_MINUTE_def Let_def store_ev_def event_today_def
      clock_west_def clock_east_def)

end
